theory Spec2Isabelle
  imports Complex_Main
begin

section \<open>Conversation store (modules/message\_store.py)\<close>

subsection \<open>Data\<close>

text \<open>
  A chat message is the Python dict \<^verbatim>\<open>{"role": role, "content": content}\<close>; the source
  keeps the role as a plain string.
\<close>

record message =
  role :: string
  content :: string

datatype error = ValueError | OverflowError

text \<open>
  \<^verbatim>\<open>collections.deque(maxlen=m)\<close>: Python integers are unbounded and modelled by
  \<^typ>\<open>int\<close>. The constructor first converts the bound to a C index
  (\<^verbatim>\<open>OverflowError: Python int too large to convert to C ssize_t\<close> outside
  \<open>- sys_maxsize - 1 .. sys_maxsize\<close>, with \<^verbatim>\<open>sys.maxsize\<close> \<open>= 2\<^sup>6\<^sup>3 - 1\<close> on a 64-bit
  interpreter) and then rejects a negative bound
  (\<^verbatim>\<open>ValueError: maxlen must be non-negative\<close>). \<^verbatim>\<open>append\<close> stores the item at the
  right end and then drops the leftmost item when the size exceeds the bound, so a deque
  of bound 0 stays empty.
\<close>

definition sys_maxsize :: int where
  "sys_maxsize = 2 ^ 63 - 1"

record 'a deque =
  items :: "'a list"
  maxlen :: int

definition deque_init :: "int \<Rightarrow> error + 'a deque" where
  "deque_init m =
     (if m < - sys_maxsize - 1 \<or> sys_maxsize < m then Inl OverflowError
      else if m < 0 then Inl ValueError
      else Inr \<lparr>items = [], maxlen = m\<rparr>)"

definition deque_append :: "'a deque \<Rightarrow> 'a \<Rightarrow> 'a deque" where
  "deque_append d x =
     (let xs = items d @ [x]
      in d\<lparr>items := (if maxlen d < int (length xs) then tl xs else xs)\<rparr>)"

definition deque_clear :: "'a deque \<Rightarrow> 'a deque" where
  "deque_clear d = d\<lparr>items := []\<rparr>"

record MessageStore =
  max_history :: int
  messages :: "message deque"
  system_message :: "message option"

subsection \<open>Operations\<close>

definition MessageStore_init :: "int \<Rightarrow> error + MessageStore" where
  "MessageStore_init n =
     (case deque_init (n * 2) of
        Inl e \<Rightarrow> Inl e
      | Inr d \<Rightarrow> Inr \<lparr>max_history = n, messages = d, system_message = None\<rparr>)"

definition set_system_message :: "string \<Rightarrow> MessageStore \<Rightarrow> MessageStore" where
  "set_system_message c s = s\<lparr>system_message := Some \<lparr>role = ''system'', content = c\<rparr>\<rparr>"

definition add_system_message :: "string \<Rightarrow> MessageStore \<Rightarrow> MessageStore" where
  "add_system_message c s =
     s\<lparr>messages := deque_append (messages s) \<lparr>role = ''system'', content = c\<rparr>\<rparr>"

definition add_message :: "string \<Rightarrow> string \<Rightarrow> MessageStore \<Rightarrow> MessageStore" where
  "add_message r c s =
     (if r = ''system'' then set_system_message c s
      else s\<lparr>messages := deque_append (messages s) \<lparr>role = r, content = c\<rparr>\<rparr>)"

text \<open>
  \<^verbatim>\<open>get_messages\<close> starts from an empty list, appends the directive when
  \<^verbatim>\<open>self.system_message\<close> is truthy (it is \<^verbatim>\<open>None\<close> or a two-key dict, and a
  non-empty dict is truthy whatever its content), and extends by the deque's items.
\<close>

definition get_messages :: "MessageStore \<Rightarrow> message list" where
  "get_messages s =
     (let ms = [];
          ms = (case system_message s of None \<Rightarrow> ms | Some d \<Rightarrow> ms @ [d])
      in ms @ items (messages s))"

definition clear :: "MessageStore \<Rightarrow> MessageStore" where
  "clear s = s\<lparr>messages := deque_clear (messages s)\<rparr>"

definition get_conversation_count :: "MessageStore \<Rightarrow> int" where
  "get_conversation_count s = int (length (items (messages s))) div 2"

text \<open>
  A client of the store issues method calls; each call returns the store it leaves
  behind together with the value it hands back.
\<close>

datatype call =
    SetSystemMessage string
  | AddSystemMessage string
  | AddMessage string string
  | GetMessages
  | Clear
  | GetConversationCount

datatype retval = RNone | RList "message list" | RInt int

fun exec :: "call \<Rightarrow> MessageStore \<Rightarrow> error + MessageStore \<times> retval" where
  "exec (SetSystemMessage c) s = Inr (set_system_message c s, RNone)"
| "exec (AddSystemMessage c) s = Inr (add_system_message c s, RNone)"
| "exec (AddMessage r c) s = Inr (add_message r c s, RNone)"
| "exec GetMessages s = Inr (s, RList (get_messages s))"
| "exec Clear s = Inr (clear s, RNone)"
| "exec GetConversationCount s = Inr (s, RInt (get_conversation_count s))"

fun after :: "call \<Rightarrow> MessageStore \<Rightarrow> MessageStore" where
  "after c s = (case exec c s of Inr (s', _) \<Rightarrow> s' | Inl _ \<Rightarrow> s)"

definition run :: "call list \<Rightarrow> MessageStore \<Rightarrow> MessageStore" where
  "run cs s = foldl (\<lambda>s c. after c s) s cs"

subsection \<open>The store as the specification describes it\<close>

text \<open>
  The specification speaks of a sliding window over everything appended so far. The
  functions below follow its words, not the code: \<open>window n xs\<close> is the most recent
  \<open>n\<close> entries of \<open>xs\<close> in their original order, \<open>history_log\<close> collects the entries a
  sequence of calls appends to the history since the last \<open>clear\<close>, and
  \<open>directive_log\<close> is the primary directive the calls leave in place.
\<close>

definition window :: "nat \<Rightarrow> 'a list \<Rightarrow> 'a list" where
  "window n xs = drop (length xs - n) xs"

fun history_log :: "message list \<Rightarrow> call list \<Rightarrow> message list" where
  "history_log acc [] = acc"
| "history_log acc (AddSystemMessage c # cs) =
     history_log (acc @ [\<lparr>role = ''system'', content = c\<rparr>]) cs"
| "history_log acc (AddMessage r c # cs) =
     (if r = ''system'' then history_log acc cs
      else history_log (acc @ [\<lparr>role = r, content = c\<rparr>]) cs)"
| "history_log acc (Clear # cs) = history_log [] cs"
| "history_log acc (SetSystemMessage c # cs) = history_log acc cs"
| "history_log acc (GetMessages # cs) = history_log acc cs"
| "history_log acc (GetConversationCount # cs) = history_log acc cs"

fun directive_log :: "message option \<Rightarrow> call list \<Rightarrow> message option" where
  "directive_log d [] = d"
| "directive_log d (SetSystemMessage c # cs) =
     directive_log (Some \<lparr>role = ''system'', content = c\<rparr>) cs"
| "directive_log d (AddMessage r c # cs) =
     (if r = ''system'' then directive_log (Some \<lparr>role = ''system'', content = c\<rparr>) cs
      else directive_log d cs)"
| "directive_log d (AddSystemMessage c # cs) = directive_log d cs"
| "directive_log d (GetMessages # cs) = directive_log d cs"
| "directive_log d (Clear # cs) = directive_log d cs"
| "directive_log d (GetConversationCount # cs) = directive_log d cs"

definition add_all :: "message list \<Rightarrow> call list" where
  "add_all ms = map (\<lambda>m. AddMessage (role m) (content m)) ms"

definition fresh_store :: "int \<Rightarrow> MessageStore" where
  "fresh_store n =
     \<lparr>max_history = n, messages = \<lparr>items = [], maxlen = n * 2\<rparr>, system_message = None\<rparr>"

definition says :: "string \<Rightarrow> string \<Rightarrow> message" where
  "says r c = \<lparr>role = r, content = c\<rparr>"

definition talk :: "message list" where
  "talk = [says ''user'' ''hi'', says ''assistant'' ''hello'', says ''user'' ''bye'']"

section \<open>Provider dispatcher (modules/chat\_handler.py)\<close>

subsection \<open>The provider SDKs\<close>

text \<open>
  The OpenAI and Groq client libraries are outside the repository. A client is modelled by
  what its two calls answer: \<^verbatim>\<open>chat.completions.create(model, messages, temperature,
  max_tokens=1000)\<close> either raises (the exception is kept as the text \<^verbatim>\<open>str(e)\<close>, the
  only part of it the handler reads) or returns a completion; with \<^verbatim>\<open>stream=True\<close> it
  either raises or returns a finite stream of chunks that ends normally or breaks with an
  exception. Of a completion the handler reads \<^verbatim>\<open>choices[i].message.content\<close> (which may
  be \<^verbatim>\<open>None\<close>) and the three token counts of \<^verbatim>\<open>usage\<close> (which the SDK types as
  optional); of a chunk it reads \<^verbatim>\<open>choices[i].delta.content\<close>.
\<close>

type_synonym exn = string

record completion =
  choices :: "string option list"
  usage :: "(int \<times> int \<times> int) option"

type_synonym chunk = "string option list"

datatype stream_end = Exhausted | Broken exn

record client =
  create :: "string \<Rightarrow> message list \<Rightarrow> real \<Rightarrow> exn + completion"
  create_stream :: "string \<Rightarrow> message list \<Rightarrow> real \<Rightarrow> exn + chunk list \<times> stream_end"

record sdk =
  OpenAI :: "string \<Rightarrow> exn + client"
  Groq :: "string \<Rightarrow> exn + client"

text \<open>
  The handler object. \<^verbatim>\<open>openai_model\<close> and \<^verbatim>\<open>groq_model\<close> are assigned in the source
  only together with their client and read only behind the test for that client; the
  record carries them from the start.
\<close>

record ChatHandler =
  providers :: "string list"
  provider_preference :: string
  current_provider :: "string option"
  current_model :: "string option"
  openai_client :: "client option"
  openai_model :: string
  groq_client :: "client option"
  groq_model :: string

subsection \<open>Construction and provider order\<close>

text \<open>
  \<^verbatim>\<open>provider.lower()\<close>, on the ASCII letters (no other character lower-cases to a
  letter of \<open>openai\<close> or \<open>groq\<close>). A key is used when it is truthy: not \<^verbatim>\<open>None\<close>
  and not the empty string. A client constructor that raises is caught and logged.
  \<^verbatim>\<open>sorted\<close> is stable, as \<open>sort_key\<close> is.
\<close>

definition lower_char :: "char \<Rightarrow> char" where
  "lower_char c =
     (case map_of (zip ''ABCDEFGHIJKLMNOPQRSTUVWXYZ'' ''abcdefghijklmnopqrstuvwxyz'') c of
        Some l \<Rightarrow> l
      | None \<Rightarrow> c)"

definition lower :: "string \<Rightarrow> string" where
  "lower s = map lower_char s"

definition ChatHandler_init ::
  "sdk \<Rightarrow> string option \<Rightarrow> string \<Rightarrow> string option \<Rightarrow> string \<Rightarrow> string \<Rightarrow> error + ChatHandler" where
  "ChatHandler_init lib openai_key openai_model' groq_key groq_model' provider =
     (let h = \<lparr>providers = [], provider_preference = lower provider,
               current_provider = None, current_model = None,
               openai_client = None, openai_model = openai_model',
               groq_client = None, groq_model = groq_model'\<rparr>;
          h = (case openai_key of
                 Some k \<Rightarrow>
                   (if k \<noteq> [] then
                      (case OpenAI lib k of
                         Inr c \<Rightarrow> h\<lparr>openai_client := Some c, providers := providers h @ [''openai'']\<rparr>
                       | Inl e \<Rightarrow> h\<lparr>openai_client := None\<rparr>)
                    else h\<lparr>openai_client := None\<rparr>)
               | None \<Rightarrow> h\<lparr>openai_client := None\<rparr>);
          h = (case groq_key of
                 Some k \<Rightarrow>
                   (if k \<noteq> [] then
                      (case Groq lib k of
                         Inr c \<Rightarrow> h\<lparr>groq_client := Some c, providers := providers h @ [''groq'']\<rparr>
                       | Inl e \<Rightarrow> h\<lparr>groq_client := None\<rparr>)
                    else h\<lparr>groq_client := None\<rparr>)
               | None \<Rightarrow> h\<lparr>groq_client := None\<rparr>)
      in if providers h = [] then Inl ValueError else Inr h)"

definition get_provider_order :: "ChatHandler \<Rightarrow> string list" where
  "get_provider_order h =
     (if provider_preference h = ''openai'' \<and> ''openai'' \<in> set (providers h)
      then [''openai''] @ filter (\<lambda>p. p \<noteq> ''openai'') (providers h)
      else if provider_preference h = ''groq'' \<and> ''groq'' \<in> set (providers h)
      then [''groq''] @ filter (\<lambda>p. p \<noteq> ''groq'') (providers h)
      else sort_key (\<lambda>x. if x = ''groq'' then 0 else (1::nat)) (providers h))"

subsection \<open>Batch requests\<close>

text \<open>
  The result dict of \<^verbatim>\<open>get_response\<close>: \<open>Reply message provider model usage\<close> for
  \<^verbatim>\<open>{"success": True, ...}\<close> and \<open>Unavailable error message\<close> for
  \<^verbatim>\<open>{"success": False, ...}\<close>. Inside \<^verbatim>\<open>_try_groq\<close> and \<^verbatim>\<open>_try_openai\<close> the call may
  raise, \<^verbatim>\<open>choices[0]\<close> raises \<^verbatim>\<open>IndexError\<close> on an empty list and reading the token
  counts of a missing \<^verbatim>\<open>usage\<close> raises \<^verbatim>\<open>AttributeError\<close>; each is logged and raised
  again, and \<^verbatim>\<open>get_response\<close> catches it. The loop also returns the names of the
  adapters it called, in call order, so that theorems can speak about which calls were
  made.
\<close>

datatype chat_result =
    Reply "string option" string string "int \<times> int \<times> int"
  | Unavailable string string

definition IndexError_text :: string where
  "IndexError_text = ''list index out of range''"

definition no_attribute :: "string \<Rightarrow> string" where
  "no_attribute a =
     [CHR 0x27] @ ''NoneType'' @ [CHR 0x27] @ '' object has no attribute ''
       @ [CHR 0x27] @ a @ [CHR 0x27]"

definition extract_reply :: "string \<Rightarrow> string \<Rightarrow> completion \<Rightarrow> exn + chat_result" where
  "extract_reply name model r =
     (case choices r of
        [] \<Rightarrow> Inl IndexError_text
      | assistant_message # _ \<Rightarrow>
          (case usage r of
             None \<Rightarrow> Inl (no_attribute ''prompt_tokens'')
           | Some u \<Rightarrow> Inr (Reply assistant_message name model u)))"

definition try_groq :: "ChatHandler \<Rightarrow> message list \<Rightarrow> real \<Rightarrow> exn + chat_result" where
  "try_groq h ms t =
     (case groq_client h of
        None \<Rightarrow> Inl (no_attribute ''chat'')
      | Some c \<Rightarrow>
          (case create c (groq_model h) ms t of
             Inl e \<Rightarrow> Inl e
           | Inr response \<Rightarrow> extract_reply ''groq'' (groq_model h) response))"

definition try_openai :: "ChatHandler \<Rightarrow> message list \<Rightarrow> real \<Rightarrow> exn + chat_result" where
  "try_openai h ms t =
     (case openai_client h of
        None \<Rightarrow> Inl (no_attribute ''chat'')
      | Some c \<Rightarrow>
          (case create c (openai_model h) ms t of
             Inl e \<Rightarrow> Inl e
           | Inr response \<Rightarrow> extract_reply ''openai'' (openai_model h) response))"

definition join :: "string \<Rightarrow> string list \<Rightarrow> string" where
  "join sep xs = (case xs of [] \<Rightarrow> [] | y # ys \<Rightarrow> foldl (\<lambda>acc x. acc @ sep @ x) y ys)"

definition apology :: string where
  "apology = ''Sorry, all AI services are currently unavailable. Please try again later.''"

fun get_response_loop ::
  "ChatHandler \<Rightarrow> message list \<Rightarrow> real \<Rightarrow> string list \<Rightarrow> string list \<Rightarrow> string list
     \<Rightarrow> string list \<times> chat_result" where
  "get_response_loop h ms t [] errors calls =
     (calls, Unavailable (join '' | '' errors) apology)"
| "get_response_loop h ms t (provider # rest) errors calls =
     (if provider = ''groq'' \<and> groq_client h \<noteq> None then
        (case try_groq h ms t of
           Inr r \<Rightarrow> (calls @ [provider], r)
         | Inl e \<Rightarrow>
             get_response_loop h ms t rest (errors @ [provider @ '': '' @ e]) (calls @ [provider]))
      else if provider = ''openai'' \<and> openai_client h \<noteq> None then
        (case try_openai h ms t of
           Inr r \<Rightarrow> (calls @ [provider], r)
         | Inl e \<Rightarrow>
             get_response_loop h ms t rest (errors @ [provider @ '': '' @ e]) (calls @ [provider]))
      else get_response_loop h ms t rest errors calls)"

definition get_response_traced ::
  "ChatHandler \<Rightarrow> message list \<Rightarrow> real \<Rightarrow> string list \<times> chat_result" where
  "get_response_traced h ms t = get_response_loop h ms t (get_provider_order h) [] []"

definition get_response :: "ChatHandler \<Rightarrow> message list \<Rightarrow> real \<Rightarrow> chat_result" where
  "get_response h ms t = snd (get_response_traced h ms t)"

subsection \<open>Streamed requests\<close>

text \<open>
  \<^verbatim>\<open>stream_response\<close> is a generator. Its run to the end is the list of what it does
  that can be seen from outside, in order: \<open>Assign p m\<close> sets
  \<^verbatim>\<open>current_provider, current_model\<close>, \<open>Open p\<close> issues the streaming request to
  adapter \<open>p\<close>, \<open>Yield s\<close> hands a fragment to the consumer. \<open>drain\<close> is the
  inner \<^verbatim>\<open>for chunk in stream\<close> loop: the fragments yielded, and the exception if the
  loop was left by one (the stream broke, or a chunk had no \<^verbatim>\<open>choices[0]\<close>).
  \<open>yielded\<close> reads the fragments off a run, \<open>scratch\<close> the provider and model it
  leaves in the handler.
\<close>

datatype event = Assign "string option" "string option" | Open string | Yield string

fun drain :: "chunk list \<Rightarrow> stream_end \<Rightarrow> string list \<times> exn option" where
  "drain [] Exhausted = ([], None)"
| "drain [] (Broken e) = ([], Some e)"
| "drain (chunk # rest) fin =
     (case chunk of
        [] \<Rightarrow> ([], Some IndexError_text)
      | None # _ \<Rightarrow> drain rest fin
      | Some text # _ \<Rightarrow> (case drain rest fin of (ys, r) \<Rightarrow> (text # ys, r)))"

definition stream_from ::
  "client option \<Rightarrow> string \<Rightarrow> message list \<Rightarrow> real \<Rightarrow> string list \<times> exn option" where
  "stream_from cl model ms t =
     (case cl of
        None \<Rightarrow> ([], Some (no_attribute ''chat''))
      | Some c \<Rightarrow>
          (case create_stream c model ms t of
             Inl e \<Rightarrow> ([], Some e)
           | Inr (chunks, fin) \<Rightarrow> drain chunks fin))"

definition unavailable_text :: string where
  "unavailable_text = ''Error: All AI services are currently unavailable.''"

fun stream_loop :: "ChatHandler \<Rightarrow> message list \<Rightarrow> real \<Rightarrow> string list \<Rightarrow> event list" where
  "stream_loop h ms t [] =
     [Assign (Some ''error'') (Some ''none''), Yield unavailable_text]"
| "stream_loop h ms t (provider # rest) =
     (if provider = ''groq'' \<and> groq_client h \<noteq> None then
        [Assign (Some ''groq'') (Some (groq_model h)), Open ''groq''] @
        (case stream_from (groq_client h) (groq_model h) ms t of
           (ys, None) \<Rightarrow> map Yield ys
         | (ys, Some e) \<Rightarrow> map Yield ys @ [Assign None None] @ stream_loop h ms t rest)
      else if provider = ''openai'' \<and> openai_client h \<noteq> None then
        [Assign (Some ''openai'') (Some (openai_model h)), Open ''openai''] @
        (case stream_from (openai_client h) (openai_model h) ms t of
           (ys, None) \<Rightarrow> map Yield ys
         | (ys, Some e) \<Rightarrow> map Yield ys @ [Assign None None] @ stream_loop h ms t rest)
      else stream_loop h ms t rest)"

definition stream_response :: "ChatHandler \<Rightarrow> message list \<Rightarrow> real \<Rightarrow> event list" where
  "stream_response h ms t = stream_loop h ms t (get_provider_order h)"

fun yielded :: "event list \<Rightarrow> string list" where
  "yielded [] = []"
| "yielded (Yield s # es) = s # yielded es"
| "yielded (_ # es) = yielded es"

fun scratch :: "event list \<Rightarrow> string option \<times> string option \<Rightarrow> string option \<times> string option" where
  "scratch [] cur = cur"
| "scratch (Assign p m # es) cur = scratch es (p, m)"
| "scratch (_ # es) cur = scratch es cur"

subsection \<open>The dispatcher as the specification describes it\<close>

text \<open>
  The specification's words for construction: a credential is given when it is a
  non-empty string, an adapter initialises when its credential is given and its client
  constructor returns, and the usable adapters are those that initialise, in registration
  order. For a request: what one adapter answers (\<open>attempt\<close>), whether that is a
  failure, and the text recorded for it.
\<close>

definition truthy :: "string option \<Rightarrow> bool" where
  "truthy k = (case k of None \<Rightarrow> False | Some s \<Rightarrow> s \<noteq> [])"

definition initialises :: "(string \<Rightarrow> exn + client) \<Rightarrow> string option \<Rightarrow> bool" where
  "initialises ctor key =
     (case key of
        None \<Rightarrow> False
      | Some k \<Rightarrow> k \<noteq> [] \<and> (case ctor k of Inr _ \<Rightarrow> True | Inl _ \<Rightarrow> False))"

definition usable :: "sdk \<Rightarrow> string option \<Rightarrow> string option \<Rightarrow> string list" where
  "usable lib openai_key groq_key =
     (if initialises (OpenAI lib) openai_key then [''openai''] else []) @
     (if initialises (Groq lib) groq_key then [''groq''] else [])"

definition model_of :: "ChatHandler \<Rightarrow> string \<Rightarrow> string" where
  "model_of h p = (if p = ''groq'' then groq_model h else openai_model h)"

definition attempt :: "ChatHandler \<Rightarrow> message list \<Rightarrow> real \<Rightarrow> string \<Rightarrow> exn + chat_result" where
  "attempt h ms t p = (if p = ''groq'' then try_groq h ms t else try_openai h ms t)"

definition failure_text :: "ChatHandler \<Rightarrow> message list \<Rightarrow> real \<Rightarrow> string \<Rightarrow> string" where
  "failure_text h ms t p = (case attempt h ms t p of Inl e \<Rightarrow> p @ '': '' @ e | Inr _ \<Rightarrow> [])"

definition fails :: "ChatHandler \<Rightarrow> message list \<Rightarrow> real \<Rightarrow> string \<Rightarrow> bool" where
  "fails h ms t p = (case attempt h ms t p of Inl _ \<Rightarrow> True | Inr _ \<Rightarrow> False)"

definition wired :: "ChatHandler \<Rightarrow> string \<Rightarrow> bool" where
  "wired h p \<longleftrightarrow> (p = ''groq'' \<and> groq_client h \<noteq> None) \<or> (p = ''openai'' \<and> openai_client h \<noteq> None)"

text \<open>
  For streaming: \<open>stream_of\<close> is what one adapter's stream delivers (its fragments
  and whether it raised), \<open>attempted\<close> is the part of the order the dispatcher gets
  to (up to and including the first adapter that does not raise), and
  \<open>attempt_events\<close> is what one attempt does as seen from outside.
\<close>

definition stream_of ::
  "ChatHandler \<Rightarrow> message list \<Rightarrow> real \<Rightarrow> string \<Rightarrow> string list \<times> exn option" where
  "stream_of h ms t p =
     (if p = ''groq'' then stream_from (groq_client h) (groq_model h) ms t
      else stream_from (openai_client h) (openai_model h) ms t)"

definition fragments :: "ChatHandler \<Rightarrow> message list \<Rightarrow> real \<Rightarrow> string \<Rightarrow> string list" where
  "fragments h ms t p = fst (stream_of h ms t p)"

definition breaks :: "ChatHandler \<Rightarrow> message list \<Rightarrow> real \<Rightarrow> string \<Rightarrow> bool" where
  "breaks h ms t p = (snd (stream_of h ms t p) \<noteq> None)"

fun attempted :: "ChatHandler \<Rightarrow> message list \<Rightarrow> real \<Rightarrow> string list \<Rightarrow> string list" where
  "attempted h ms t [] = []"
| "attempted h ms t (p # ps) = (if breaks h ms t p then p # attempted h ms t ps else [p])"

definition attempt_events :: "ChatHandler \<Rightarrow> message list \<Rightarrow> real \<Rightarrow> string \<Rightarrow> event list" where
  "attempt_events h ms t p =
     [Assign (Some p) (Some (model_of h p)), Open p] @ map Yield (fragments h ms t p) @
     (if breaks h ms t p then [Assign None None] else [])"

definition closing_events :: "event list" where
  "closing_events = [Assign (Some ''error'') (Some ''none''), Yield unavailable_text]"

subsection \<open>Sample clients and handlers\<close>

text \<open>
  Concrete SDK behaviours on which the theorems below are exercised: a client that
  answers every request, one that is down, one whose stream ends normally without any
  content, and one whose stream breaks after its first fragment.
\<close>

definition steady_client :: "string \<Rightarrow> client" where
  "steady_client text =
     \<lparr>create = (\<lambda>model ms t. Inr \<lparr>choices = [Some text], usage = Some (3, 1, 4)\<rparr>),
      create_stream = (\<lambda>model ms t. Inr ([[Some text]], Exhausted))\<rparr>"

definition down_client :: client where
  "down_client =
     \<lparr>create = (\<lambda>model ms t. Inl ''timeout''),
      create_stream = (\<lambda>model ms t. Inl ''timeout'')\<rparr>"

definition silent_client :: client where
  "silent_client =
     \<lparr>create = (\<lambda>model ms t. Inr \<lparr>choices = [None], usage = Some (3, 0, 3)\<rparr>),
      create_stream = (\<lambda>model ms t. Inr ([[None]], Exhausted))\<rparr>"

definition flaky_client :: client where
  "flaky_client =
     \<lparr>create = (\<lambda>model ms t. Inl ''reset''),
      create_stream = (\<lambda>model ms t. Inr ([[Some ''Hel'']], Broken ''reset''))\<rparr>"

definition lab_sdk :: "client \<Rightarrow> client \<Rightarrow> sdk" where
  "lab_sdk oc gc = \<lparr>OpenAI = (\<lambda>key. Inr oc), Groq = (\<lambda>key. Inr gc)\<rparr>"

definition half_sdk :: "client \<Rightarrow> sdk" where
  "half_sdk gc = \<lparr>OpenAI = (\<lambda>key. Inl ''malformed key''), Groq = (\<lambda>key. Inr gc)\<rparr>"

definition lab_handler :: "client \<Rightarrow> client \<Rightarrow> string \<Rightarrow> ChatHandler" where
  "lab_handler oc gc pref =
     \<lparr>providers = [''openai'', ''groq''], provider_preference = pref,
      current_provider = None, current_model = None,
      openai_client = Some oc, openai_model = ''gpt-3.5-turbo'',
      groq_client = Some gc, groq_model = ''llama-3.1-70b-versatile''\<rparr>"

definition half_handler :: "client \<Rightarrow> ChatHandler" where
  "half_handler gc =
     \<lparr>providers = [''groq''], provider_preference = ''auto'',
      current_provider = None, current_model = None,
      openai_client = None, openai_model = ''gpt-3.5-turbo'',
      groq_client = Some gc, groq_model = ''llama-3.1-70b-versatile''\<rparr>"

section \<open>The store among Python objects\<close>

text \<open>
  Whether a caller can reach the store through the list \<^verbatim>\<open>get_messages\<close> returns is a
  question about object identity, so here the objects live on a heap: an address is a
  position in the heap, allocation appends. Message dicts, lists and the deque are
  objects; lists and the deque hold references to dicts. The store object holds a
  reference to its deque and, when set, one to its directive dict.
\<close>

type_synonym addr = nat

datatype obj = Dict message | PyList "addr list" | Deque "addr list" int

type_synonym heap = "obj list"

record StoreObj =
  ref_max_history :: int
  ref_messages :: addr
  ref_system_message :: "addr option"

text \<open>
  \<open>mutate\<close> is what a holder of a reference can do to the sequence behind it:
  replace its items by any function of them (append, extend, insert, pop, item
  assignment, clear, \<dots>), whether the object is a list or a deque.
\<close>

definition lookup :: "heap \<Rightarrow> addr \<Rightarrow> obj option" where
  "lookup H a = (if a < length H then Some (H ! a) else None)"

definition alloc :: "obj \<Rightarrow> heap \<Rightarrow> heap \<times> addr" where
  "alloc ob H = (H @ [ob], length H)"

definition seq_items :: "heap \<Rightarrow> addr \<Rightarrow> addr list" where
  "seq_items H a =
     (case lookup H a of
        Some (PyList xs) \<Rightarrow> xs
      | Some (Deque xs m) \<Rightarrow> xs
      | _ \<Rightarrow> [])"

definition mutate :: "heap \<Rightarrow> addr \<Rightarrow> (addr list \<Rightarrow> addr list) \<Rightarrow> heap" where
  "mutate H r f =
     (case lookup H r of
        Some (PyList xs) \<Rightarrow> H[r := PyList (f xs)]
      | Some (Deque xs m) \<Rightarrow> H[r := Deque (f xs) m]
      | _ \<Rightarrow> H)"

text \<open>
  \<^verbatim>\<open>get_messages\<close> on the heap: \<^verbatim>\<open>messages = []\<close> allocates a list; the directive's
  reference is appended to it when set; \<^verbatim>\<open>list(self.messages)\<close> allocates a second list
  holding the deque's references, by which the first is extended. The first list's address
  is returned. The caller in \<^verbatim>\<open>app.py\<close> (\<^verbatim>\<open>chat\<close>, for a file message) then allocates
  a new dict and appends it to the returned list.
\<close>

definition ref_get_messages :: "heap \<Rightarrow> StoreObj \<Rightarrow> heap \<times> addr" where
  "ref_get_messages H S =
     (case alloc (PyList []) H of
        (H1, msgs) \<Rightarrow>
          (let H2 = (case ref_system_message S of
                       None \<Rightarrow> H1
                     | Some a \<Rightarrow> mutate H1 msgs (\<lambda>xs. xs @ [a]))
           in case alloc (PyList (seq_items H2 (ref_messages S))) H2 of
                (H3, tmp) \<Rightarrow> (mutate H3 msgs (\<lambda>xs. xs @ seq_items H3 tmp), msgs)))"

definition file_context :: message where
  "file_context =
     \<lparr>role = ''system'',
      content = ''The user has uploaded a file. You can analyze text files, images, and other documents. ''
        @ ''For text files, you can discuss the content. For images, you can describe what you see. ''
        @ ''For other files, you can discuss the file type and potential uses.''\<rparr>"

definition chat_file_context :: "heap \<Rightarrow> addr \<Rightarrow> heap" where
  "chat_file_context H msgs =
     (case alloc (Dict file_context) H of (H1, a) \<Rightarrow> mutate H1 msgs (\<lambda>xs. xs @ [a]))"

text \<open>
  Reading the heap back: \<open>abstract_store\<close> is the store of the first section that a
  store object stands for (when all its references lead to objects of the right kind), and
  \<open>snapshot_view\<close> is the message list behind a returned address.
\<close>

definition dict_at :: "heap \<Rightarrow> addr \<Rightarrow> message option" where
  "dict_at H a = (case lookup H a of Some (Dict d) \<Rightarrow> Some d | _ \<Rightarrow> None)"

fun dicts_at :: "heap \<Rightarrow> addr list \<Rightarrow> message list option" where
  "dicts_at H [] = Some []"
| "dicts_at H (a # as) =
     (case dict_at H a of
        None \<Rightarrow> None
      | Some d \<Rightarrow> (case dicts_at H as of None \<Rightarrow> None | Some ds \<Rightarrow> Some (d # ds)))"

definition list_at :: "heap \<Rightarrow> addr \<Rightarrow> addr list option" where
  "list_at H a = (case lookup H a of Some (PyList xs) \<Rightarrow> Some xs | _ \<Rightarrow> None)"

definition abstract_store :: "heap \<Rightarrow> StoreObj \<Rightarrow> MessageStore option" where
  "abstract_store H S =
     (case lookup H (ref_messages S) of
        Some (Deque xs m) \<Rightarrow>
          (case dicts_at H xs of
             None \<Rightarrow> None
           | Some ds \<Rightarrow>
               (case ref_system_message S of
                  None \<Rightarrow>
                    Some \<lparr>max_history = ref_max_history S,
                          messages = \<lparr>items = ds, maxlen = m\<rparr>, system_message = None\<rparr>
                | Some a \<Rightarrow>
                    (case dict_at H a of
                       None \<Rightarrow> None
                     | Some d \<Rightarrow>
                         Some \<lparr>max_history = ref_max_history S,
                               messages = \<lparr>items = ds, maxlen = m\<rparr>, system_message = Some d\<rparr>)))
      | _ \<Rightarrow> None)"

definition snapshot_view :: "heap \<times> addr \<Rightarrow> message list option" where
  "snapshot_view Hr = (case Hr of (H, r) \<Rightarrow>
     (case list_at H r of None \<Rightarrow> None | Some as \<Rightarrow> dicts_at H as))"

definition extends :: "heap \<Rightarrow> heap \<Rightarrow> bool" where
  "extends H H' \<longleftrightarrow> length H \<le> length H' \<and> (\<forall>a<length H. H' ! a = H ! a)"

definition directive_ref :: "StoreObj \<Rightarrow> addr list" where
  "directive_ref S = (case ref_system_message S of None \<Rightarrow> [] | Some a \<Rightarrow> [a])"

definition demo_heap :: heap where
  "demo_heap =
     [Dict (says ''system'' ''be kind''), Deque [2, 3] 2,
      Dict (says ''user'' ''hi''), Dict (says ''assistant'' ''hello'')]"

definition demo_store :: StoreObj where
  "demo_store = \<lparr>ref_max_history = 1, ref_messages = 1, ref_system_message = Some 0\<rparr>"

definition demo_value :: MessageStore where
  "demo_value =
     \<lparr>max_history = 1,
      messages = \<lparr>items = [says ''user'' ''hi'', says ''assistant'' ''hello''], maxlen = 2\<rparr>,
      system_message = Some (says ''system'' ''be kind'')\<rparr>"

section \<open>Properties of the conversation store\<close>

subsection \<open>The deque keeps a sliding window\<close>

lemma window_length: "length (window n xs) = min n (length xs)"
  by (simp add: window_def)

lemma window_snoc: "window n (window n xs @ [x]) = window n (xs @ [x])"
  by (cases "length xs \<le> n") (simp_all add: window_def Suc_diff_le)

lemma deque_append_window:
  assumes "0 \<le> maxlen d" and "length (items d) \<le> nat (maxlen d)"
  shows "items (deque_append d x) = window (nat (maxlen d)) (items d @ [x])"
proof (cases "length (items d) = nat (maxlen d)")
  case True
  with assms have "maxlen d < int (length (items d @ [x]))" by simp
  moreover have "window (nat (maxlen d)) (items d @ [x]) = tl (items d @ [x])"
    using True by (cases "items d") (simp_all add: window_def)
  ultimately show ?thesis by (simp add: deque_append_def Let_def)
next
  case False
  with assms have "\<not> maxlen d < int (length (items d @ [x]))" by simp
  moreover have "window (nat (maxlen d)) (items d @ [x]) = items d @ [x]"
    using False assms by (simp add: window_def)
  ultimately show ?thesis by (simp add: deque_append_def Let_def)
qed

lemma deque_append_maxlen [simp]: "maxlen (deque_append d x) = maxlen d"
  by (simp add: deque_append_def Let_def)

lemma run_Nil [simp]: "run [] s = s"
  by (simp add: run_def)

lemma run_Cons [simp]: "run (c # cs) s = run cs (after c s)"
  by (simp add: run_def)

lemma run_append: "run (cs @ ds) s = run ds (run cs s)"
  by (simp add: run_def)

lemma store_append_window:
  assumes "0 \<le> maxlen (messages s)"
    and "items (messages s) = window (nat (maxlen (messages s))) acc"
  shows "items (deque_append (messages s) x) = window (nat (maxlen (messages s))) (acc @ [x])"
proof -
  have "length (items (messages s)) \<le> nat (maxlen (messages s))"
    using assms(2) by (simp add: window_length)
  then have "items (deque_append (messages s) x)
      = window (nat (maxlen (messages s))) (items (messages s) @ [x])"
    using assms(1) by (rule deque_append_window[rotated])
  then show ?thesis using assms(2) by (simp add: window_snoc)
qed

lemma run_history:
  assumes "0 \<le> maxlen (messages s)"
    and "items (messages s) = window (nat (maxlen (messages s))) acc"
  shows "items (messages (run cs s)) = window (nat (maxlen (messages s))) (history_log acc cs)
       \<and> maxlen (messages (run cs s)) = maxlen (messages s)"
  using assms
proof (induction acc cs arbitrary: s rule: history_log.induct)
  case (1 acc)
  then show ?case by simp
next
  case (2 acc c cs)
  let ?s = "add_system_message c s"
  have "items (messages ?s) = window (nat (maxlen (messages s))) (acc @ [\<lparr>role = ''system'', content = c\<rparr>])"
    using store_append_window[OF "2.prems"] by (simp add: add_system_message_def)
  moreover have "maxlen (messages ?s) = maxlen (messages s)"
    by (simp add: add_system_message_def)
  ultimately show ?case using "2.IH"[of ?s] "2.prems"(1) by simp
next
  case (3 acc r c cs)
  show ?case
  proof (cases "r = ''system''")
    case True
    then have "messages (add_message r c s) = messages s"
      by (simp add: add_message_def set_system_message_def)
    then show ?thesis using True "3.IH"(1)[of "add_message r c s"] "3.prems" by simp
  next
    case False
    let ?s = "add_message r c s"
    have "items (messages ?s) = window (nat (maxlen (messages s))) (acc @ [\<lparr>role = r, content = c\<rparr>])"
      using store_append_window[OF "3.prems"] False by (simp add: add_message_def)
    moreover have "maxlen (messages ?s) = maxlen (messages s)"
      using False by (simp add: add_message_def)
    ultimately show ?thesis using False "3.IH"(2)[of ?s] "3.prems"(1) by simp
  qed
next
  case (4 acc cs)
  have "items (messages (clear s)) = window (nat (maxlen (messages s))) []"
    by (simp add: clear_def deque_clear_def window_def)
  moreover have "maxlen (messages (clear s)) = maxlen (messages s)"
    by (simp add: clear_def deque_clear_def)
  ultimately show ?case using "4.IH"[of "clear s"] "4.prems"(1) by simp
next
  case (5 acc v cs)
  have "messages (set_system_message v s) = messages s"
    by (simp add: set_system_message_def)
  then show ?case using "5.IH"[of "set_system_message v s"] "5.prems" by simp
next
  case (6 acc cs)
  then show ?case by simp
next
  case (7 acc cs)
  then show ?case by simp
qed

lemma run_directive:
  "system_message (run cs s) = directive_log (system_message s) cs"
proof (induction "system_message s" cs arbitrary: s rule: directive_log.induct)
  case 1
  then show ?case by simp
next
  case (2 c cs)
  then show ?case by (simp add: set_system_message_def)
next
  case (3 r c cs)
  then show ?case by (simp add: add_message_def set_system_message_def)
next
  case (4 v cs)
  then show ?case by (simp add: add_system_message_def)
next
  case (5 cs)
  then show ?case by simp
next
  case (6 cs)
  then show ?case by (simp add: clear_def)
next
  case (7 cs)
  then show ?case by simp
qed

lemma init_fresh:
  assumes "MessageStore_init n = Inr s"
  shows "0 \<le> n \<and> s = \<lparr>max_history = n, messages = \<lparr>items = [], maxlen = n * 2\<rparr>, system_message = None\<rparr>"
  using assms by (auto simp: MessageStore_init_def deque_init_def split: if_splits)

lemma history_log_add_all:
  "\<forall>m\<in>set ms. role m \<noteq> ''system'' \<Longrightarrow> history_log acc (add_all ms) = acc @ ms"
  by (induction ms arbitrary: acc) (simp_all add: add_all_def)

lemma run_from_init:
  assumes "MessageStore_init n = Inr s0"
  shows "items (messages (run cs s0)) = window (nat (2 * n)) (history_log [] cs)
       \<and> maxlen (messages (run cs s0)) = 2 * n \<and> 0 \<le> n"
proof -
  from init_fresh[OF assms] have n: "0 \<le> n"
    and s0: "s0 = \<lparr>max_history = n, messages = \<lparr>items = [], maxlen = n * 2\<rparr>, system_message = None\<rparr>"
    by simp_all
  have "0 \<le> maxlen (messages s0)" using n s0 by simp
  moreover have "items (messages s0) = window (nat (maxlen (messages s0))) []"
    using s0 by (simp add: window_def)
  ultimately show ?thesis
    using run_history[of s0 "[]" cs] n s0 by (simp add: mult.commute)
qed

lemma run_continue:
  assumes "MessageStore_init n = Inr s0" and "s = run cs s0"
  shows "items (messages (run ds s)) = window (nat (2 * n)) (history_log (items (messages s)) ds)"
proof -
  have m: "maxlen (messages s) = 2 * n" and n: "0 \<le> n"
    using run_from_init[OF assms(1), of cs] assms(2) by simp_all
  have "items (messages s) = window (nat (2 * n)) (history_log [] cs)"
    using run_from_init[OF assms(1), of cs] assms(2) by simp
  then have "length (items (messages s)) \<le> nat (2 * n)"
    by (simp add: window_length)
  then have "items (messages s) = window (nat (maxlen (messages s))) (items (messages s))"
    using m by (simp add: window_def)
  moreover have "0 \<le> maxlen (messages s)" using m n by simp
  ultimately show ?thesis
    using run_history[of s "items (messages s)" ds] m by simp
qed

text \<open>
  Claim C1. For every \<open>n \<ge> 1\<close>, a store built with \<open>max_history = n\<close> that
  receives \<open>2n + k\<close> messages (\<open>k > 0\<close>) of a role other than \<open>system\<close> through
  \<open>add_message\<close> holds a history of length exactly \<open>2n\<close>: the \<open>2n\<close> most
  recent messages, in the order they were appended (the \<open>k\<close> oldest are gone).
\<close>

theorem add_message_keeps_latest:
  assumes "1 \<le> n" and "MessageStore_init n = Inr s0"
    and "int (length ms) = 2 * n + int k" and "0 < k"
    and "\<forall>m\<in>set ms. role m \<noteq> ''system''"
  shows "items (messages (run (add_all ms) s0)) = drop k ms
       \<and> int (length (items (messages (run (add_all ms) s0)))) = 2 * n"
proof -
  have "items (messages (run (add_all ms) s0)) = window (nat (2 * n)) ms"
    using run_from_init[OF assms(2), of "add_all ms"] history_log_add_all[OF assms(5), of "[]"]
    by simp
  moreover have "length ms - nat (2 * n) = k" using assms(1,3) by linarith
  ultimately have "items (messages (run (add_all ms) s0)) = drop k ms"
    by (simp add: window_def)
  moreover have "int (length (drop k ms)) = 2 * n" using assms(1,3) by (simp add: of_nat_diff)
  ultimately show ?thesis by simp
qed

theorem add_message_keeps_latest_witness:
  "MessageStore_init 1 = Inr (fresh_store 1)
 \<and> int (length talk) = 2 * 1 + int 1
 \<and> list_all (\<lambda>m. role m \<noteq> ''system'') talk
 \<and> items (messages (run (add_all talk) (fresh_store 1)))
       = [says ''assistant'' ''hello'', says ''user'' ''bye'']"
proof -
  have a: "(1::int) \<le> 1" by simp
  have b: "MessageStore_init 1 = Inr (fresh_store 1)"
    by (simp add: MessageStore_init_def deque_init_def sys_maxsize_def fresh_store_def)
  have c: "int (length talk) = 2 * 1 + int 1" by (simp add: talk_def)
  have d: "0 < (1::nat)" by simp
  have e: "\<forall>m\<in>set talk. role m \<noteq> ''system''" by (simp add: talk_def says_def)
  from add_message_keeps_latest[OF a b c d e] b c e show ?thesis
    by (simp add: talk_def list_all_iff)
qed

text \<open>
  Claim C4. In every state a store reaches from its construction, \<open>get_messages\<close>
  returns the primary directive (when one is set) at index 0, followed by the whole
  history in insertion order; with no directive set the list is the history itself, so
  index 0 is its oldest surviving entry. The call leaves the store as it was, so calling
  it again returns the same list.
\<close>

theorem get_messages_snapshot:
  assumes "MessageStore_init n = Inr s0" and "s = run cs s0"
  shows "system_message s = directive_log None cs
       \<and> items (messages s) = window (nat (2 * n)) (history_log [] cs)
       \<and> (\<forall>d. system_message s = Some d \<longrightarrow>
             get_messages s ! 0 = d \<and> get_messages s = d # items (messages s))
       \<and> (system_message s = None \<longrightarrow> get_messages s = items (messages s))
       \<and> exec GetMessages s = Inr (s, RList (get_messages s))
       \<and> run [GetMessages, GetMessages] s = s"
proof -
  have "system_message s0 = None"
    using init_fresh[OF assms(1)] by simp
  then have "system_message s = directive_log None cs"
    using run_directive[of cs s0] assms(2) by simp
  moreover have "items (messages s) = window (nat (2 * n)) (history_log [] cs)"
    using run_from_init[OF assms(1), of cs] assms(2) by simp
  moreover have "\<forall>d. system_message s = Some d \<longrightarrow>
      get_messages s ! 0 = d \<and> get_messages s = d # items (messages s)"
    by (simp add: get_messages_def)
  moreover have "system_message s = None \<longrightarrow> get_messages s = items (messages s)"
    by (simp add: get_messages_def)
  ultimately show ?thesis by simp
qed

theorem get_messages_snapshot_witness:
  "MessageStore_init 1 = Inr (fresh_store 1)
 \<and> get_messages (run (SetSystemMessage ''be kind'' # add_all talk) (fresh_store 1))
       = [says ''system'' ''be kind'', says ''assistant'' ''hello'', says ''user'' ''bye'']
 \<and> get_messages (run (add_all talk) (fresh_store 1))
       = [says ''assistant'' ''hello'', says ''user'' ''bye'']"
proof -
  have b: "MessageStore_init 1 = Inr (fresh_store 1)"
    by (simp add: MessageStore_init_def deque_init_def sys_maxsize_def fresh_store_def)
  have l: "history_log [] (add_all talk) = talk"
    by (simp add: add_all_def talk_def says_def)
  have "system_message (run (SetSystemMessage ''be kind'' # add_all talk) (fresh_store 1))
      = Some (says ''system'' ''be kind'')"
    using get_messages_snapshot[OF b refl, of "SetSystemMessage ''be kind'' # add_all talk"]
    by (simp add: add_all_def talk_def says_def)
  then have 1: "get_messages (run (SetSystemMessage ''be kind'' # add_all talk) (fresh_store 1))
      = [says ''system'' ''be kind'', says ''assistant'' ''hello'', says ''user'' ''bye'']"
    using get_messages_snapshot[OF b refl, of "SetSystemMessage ''be kind'' # add_all talk"] l
    by (simp add: window_def talk_def)
  have "system_message (run (add_all talk) (fresh_store 1)) = None"
    using get_messages_snapshot[OF b refl, of "add_all talk"]
    by (simp add: add_all_def talk_def says_def)
  then have 2: "get_messages (run (add_all talk) (fresh_store 1))
      = [says ''assistant'' ''hello'', says ''user'' ''bye'']"
    using get_messages_snapshot[OF b refl, of "add_all talk"] l
    by (simp add: window_def talk_def)
  from b 1 2 show ?thesis by simp
qed

text \<open>
  Claim C5, as the code has it. The constructor validates nothing itself; it fails only
  where the deque constructor does: with \<open>ValueError\<close> exactly when \<open>max_history\<close> is
  negative and \<open>2 \<times> max_history\<close> still fits the index range, and with
  \<open>OverflowError\<close> exactly when \<open>2 \<times> max_history\<close> is outside the index range. For
  every other \<open>max_history\<close> it returns a fresh store; in particular
  \<open>max_history = 0\<close> gives a store of capacity 0, whose history stays empty whatever
  is called on it. Every other operation returns normally from every store and for every
  argument.
\<close>

theorem MessageStore_init_domain:
  "(MessageStore_init n = Inl ValueError \<longleftrightarrow> - sys_maxsize - 1 \<le> 2 * n \<and> n < 0)
 \<and> (MessageStore_init n = Inl OverflowError \<longleftrightarrow> 2 * n < - sys_maxsize - 1 \<or> sys_maxsize < 2 * n)
 \<and> (0 \<le> n \<and> 2 * n \<le> sys_maxsize \<longrightarrow> MessageStore_init n
       = Inr \<lparr>max_history = n, messages = \<lparr>items = [], maxlen = n * 2\<rparr>, system_message = None\<rparr>)
 \<and> (\<forall>s0 cs. MessageStore_init 0 = Inr s0 \<longrightarrow> items (messages (run cs s0)) = [])
 \<and> (\<forall>c s. \<exists>s' v. exec c s = Inr (s', v))"
proof -
  have 1: "MessageStore_init n = Inl ValueError \<longleftrightarrow> - sys_maxsize - 1 \<le> 2 * n \<and> n < 0"
    by (auto simp: MessageStore_init_def deque_init_def sys_maxsize_def)
  have 2: "MessageStore_init n = Inl OverflowError
      \<longleftrightarrow> 2 * n < - sys_maxsize - 1 \<or> sys_maxsize < 2 * n"
    by (auto simp: MessageStore_init_def deque_init_def sys_maxsize_def)
  have 3: "MessageStore_init n
      = Inr \<lparr>max_history = n, messages = \<lparr>items = [], maxlen = n * 2\<rparr>, system_message = None\<rparr>"
    if "0 \<le> n \<and> 2 * n \<le> sys_maxsize"
    using that by (auto simp: MessageStore_init_def deque_init_def sys_maxsize_def)
  have 4: "items (messages (run cs s0)) = []" if "MessageStore_init 0 = Inr s0" for s0 cs
    using run_from_init[OF that, of cs] by (simp add: window_def)
  have 5: "\<exists>s' v. exec c s = Inr (s', v)" for c s
    by (cases c) simp_all
  from 1 2 3 4 5 show ?thesis by blast
qed

theorem MessageStore_init_domain_witness:
  "MessageStore_init 2 = Inr (fresh_store 2)
 \<and> MessageStore_init (- 1) = Inl ValueError
 \<and> MessageStore_init (2 ^ 62) = Inl OverflowError
 \<and> MessageStore_init 0 = Inr (fresh_store 0)
 \<and> items (messages (run (AddSystemMessage ''note'' # add_all talk) (fresh_store 0))) = []
 \<and> exec Clear (fresh_store 2) = Inr (fresh_store 2, RNone)"
proof -
  have a: "MessageStore_init 2 = Inr (fresh_store 2)"
    using MessageStore_init_domain[of 2] by (simp add: fresh_store_def sys_maxsize_def)
  have b: "MessageStore_init (- 1) = Inl ValueError"
    using MessageStore_init_domain[of "- 1"] by (simp add: sys_maxsize_def)
  have c: "MessageStore_init (2 ^ 62) = Inl OverflowError"
    using MessageStore_init_domain[of "2 ^ 62"] by (simp add: sys_maxsize_def)
  have d: "MessageStore_init 0 = Inr (fresh_store 0)"
    using MessageStore_init_domain[of 0] by (simp add: fresh_store_def sys_maxsize_def)
  with MessageStore_init_domain[of 0]
  have e: "items (messages (run (AddSystemMessage ''note'' # add_all talk) (fresh_store 0))) = []"
    by blast
  have f: "exec Clear (fresh_store 2) = Inr (fresh_store 2, RNone)"
    by (simp add: clear_def deque_clear_def fresh_store_def)
  from a b c d e f show ?thesis by simp
qed

text \<open>
  The claim as the specification states it fails at \<open>max_history = 0\<close>: the
  constructor returns a store.
\<close>

theorem MessageStore_init_zero:
  "(0::int) \<le> 0 \<and> MessageStore_init 0
     = Inr \<lparr>max_history = 0, messages = \<lparr>items = [], maxlen = 0\<rparr>, system_message = None\<rparr>"
  by (simp add: MessageStore_init_def deque_init_def sys_maxsize_def)

text \<open>
  Claim C9. \<open>add_system_message\<close> leaves the primary directive alone and appends a
  \<open>system\<close> entry to the bounded history: the history stays within \<open>2 \<times>
  max_history\<close> entries, the new entry pushes out the oldest one exactly as an entry
  appended by \<open>add_message\<close> does, it is itself pushed out once \<open>2 \<times>
  max_history\<close> further entries have arrived, and in every later snapshot with a
  primary directive the directive stands at index 0, ahead of the whole history.
\<close>

theorem add_system_message_in_ring:
  assumes "MessageStore_init n = Inr s0" and "s = run cs s0"
  shows "system_message (add_system_message c s) = system_message s
       \<and> items (messages (add_system_message c s))
           = window (nat (2 * n)) (items (messages s) @ [\<lparr>role = ''system'', content = c\<rparr>])
       \<and> int (length (items (messages (add_system_message c s)))) \<le> 2 * n
       \<and> (\<forall>r c'. r \<noteq> ''system'' \<longrightarrow> items (messages (add_message r c' s))
           = window (nat (2 * n)) (items (messages s) @ [\<lparr>role = r, content = c'\<rparr>]))
       \<and> (\<forall>ms. int (length ms) = 2 * n \<and> (\<forall>m\<in>set ms. role m \<noteq> ''system'') \<longrightarrow>
             items (messages (run (add_all ms) (add_system_message c s))) = ms)
       \<and> (\<forall>ds d. system_message (run ds (add_system_message c s)) = Some d \<longrightarrow>
             get_messages (run ds (add_system_message c s))
               = d # items (messages (run ds (add_system_message c s))))"
proof -
  let ?s' = "add_system_message c s"
  have s': "?s' = run (cs @ [AddSystemMessage c]) s0"
    using assms(2) by (simp add: run_append)
  have n: "0 \<le> n" using init_fresh[OF assms(1)] by simp
  have 1: "system_message ?s' = system_message s"
    by (simp add: add_system_message_def)
  have "items (messages (run [AddSystemMessage c] s))
      = window (nat (2 * n)) (history_log (items (messages s)) [AddSystemMessage c])"
    by (rule run_continue[OF assms])
  then have 2: "items (messages ?s')
      = window (nat (2 * n)) (items (messages s) @ [\<lparr>role = ''system'', content = c\<rparr>])"
    by simp
  have 3: "int (length (items (messages ?s'))) \<le> 2 * n"
    using n by (simp add: 2 window_length)
  have 4: "items (messages (add_message r c' s))
      = window (nat (2 * n)) (items (messages s) @ [\<lparr>role = r, content = c'\<rparr>])"
    if "r \<noteq> ''system''" for r c'
  proof -
    have "items (messages (run [AddMessage r c'] s))
      = window (nat (2 * n)) (history_log (items (messages s)) [AddMessage r c'])"
      by (rule run_continue[OF assms])
    then show ?thesis using that by simp
  qed
  have 5: "items (messages (run (add_all ms) ?s')) = ms"
    if len: "int (length ms) = 2 * n" and ns: "\<forall>m\<in>set ms. role m \<noteq> ''system''" for ms
  proof -
    have "items (messages (run (add_all ms) ?s'))
        = window (nat (2 * n)) (history_log (items (messages ?s')) (add_all ms))"
      by (rule run_continue[OF assms(1) s'])
    also have "\<dots> = window (nat (2 * n)) (items (messages ?s') @ ms)"
      by (simp add: history_log_add_all[OF ns])
    also have "\<dots> = ms"
    proof -
      have "length ms = nat (2 * n)" using len by linarith
      then show ?thesis by (simp add: window_def)
    qed
    finally show ?thesis .
  qed
  have 6: "get_messages (run ds ?s') = d # items (messages (run ds ?s'))"
    if "system_message (run ds ?s') = Some d" for ds d
    using that by (simp add: get_messages_def)
  from 1 2 3 4 5 6 show ?thesis by blast
qed

theorem add_system_message_in_ring_witness:
  "MessageStore_init 1 = Inr (fresh_store 1)
 \<and> items (messages (add_system_message ''file uploaded'' (run (add_all talk) (fresh_store 1))))
       = [says ''user'' ''bye'', says ''system'' ''file uploaded'']
 \<and> items (messages (run (add_all [says ''user'' ''a'', says ''assistant'' ''b''])
         (add_system_message ''file uploaded'' (run (add_all talk) (fresh_store 1)))))
       = [says ''user'' ''a'', says ''assistant'' ''b'']"
proof -
  have b: "MessageStore_init 1 = Inr (fresh_store 1)"
    by (simp add: MessageStore_init_def deque_init_def sys_maxsize_def fresh_store_def)
  note t = add_system_message_in_ring[OF b refl, of "''file uploaded''" "add_all talk"]
  have i: "items (messages (run (add_all talk) (fresh_store 1)))
      = [says ''assistant'' ''hello'', says ''user'' ''bye'']"
    using run_from_init[OF b, of "add_all talk"]
    by (simp add: add_all_def talk_def says_def window_def)
  have 1: "items (messages (add_system_message ''file uploaded'' (run (add_all talk) (fresh_store 1))))
      = [says ''user'' ''bye'', says ''system'' ''file uploaded'']"
    using t i by (simp add: window_def says_def)
  have "int (length [says ''user'' ''a'', says ''assistant'' ''b'']) = 2 * 1
      \<and> (\<forall>m\<in>set [says ''user'' ''a'', says ''assistant'' ''b'']. role m \<noteq> ''system'')"
    by (simp add: says_def)
  with t have 2: "items (messages (run (add_all [says ''user'' ''a'', says ''assistant'' ''b''])
         (add_system_message ''file uploaded'' (run (add_all talk) (fresh_store 1)))))
       = [says ''user'' ''a'', says ''assistant'' ''b'']"
    by blast
  from b 1 2 show ?thesis by simp
qed

section \<open>Properties of the provider dispatcher\<close>

subsection \<open>Construction\<close>

lemma init_shape:
  assumes "ChatHandler_init lib ok om gk gm pref = Inr h"
  shows "providers h = usable lib ok gk"
    and "provider_preference h = lower pref"
    and "openai_client h \<noteq> None \<longleftrightarrow> initialises (OpenAI lib) ok"
    and "groq_client h \<noteq> None \<longleftrightarrow> initialises (Groq lib) gk"
    and "openai_model h = om" and "groq_model h = gm"
    and "current_provider h = None" and "current_model h = None"
  using assms
  by (auto simp: ChatHandler_init_def usable_def initialises_def Let_def
           split: option.splits sum.splits if_splits)

lemma init_fails_iff:
  "(\<exists>e. ChatHandler_init lib ok om gk gm pref = Inl e) \<longleftrightarrow> usable lib ok gk = []"
  by (auto simp: ChatHandler_init_def usable_def initialises_def Let_def
           split: option.splits sum.splits if_splits)

lemma init_wired:
  assumes "ChatHandler_init lib ok om gk gm pref = Inr h"
  shows "\<forall>p\<in>set (providers h). wired h p" and "distinct (providers h)"
    and "providers h \<noteq> []" and "set (providers h) \<subseteq> {''openai'', ''groq''}"
proof -
  note s = init_shape[OF assms]
  show "\<forall>p\<in>set (providers h). wired h p"
    using s(3,4) by (auto simp: s(1) usable_def wired_def split: if_splits)
  show "distinct (providers h)" by (simp add: s(1) usable_def)
  show "providers h \<noteq> []"
    using assms init_fails_iff[of lib ok om gk gm pref] s(1) by auto
  show "set (providers h) \<subseteq> {''openai'', ''groq''}" by (auto simp: s(1) usable_def)
qed

lemma insort_key_front:
  "\<forall>a\<in>set as. f a < f x \<Longrightarrow> \<forall>b\<in>set bs. f x \<le> f b \<Longrightarrow>
   insort_key f x (as @ bs) = as @ x # bs"
  by (induction as) (auto simp: insort_is_Cons)

lemma sort_key_groq_first:
  "sort_key (\<lambda>x. if x = g then 0 else (1::nat)) xs = filter (\<lambda>x. x = g) xs @ filter (\<lambda>x. x \<noteq> g) xs"
proof (induction xs)
  case Nil
  then show ?case by simp
next
  case (Cons x xs)
  let ?f = "\<lambda>x. if x = g then 0 else (1::nat)"
  show ?case
  proof (cases "x = g")
    case True
    have "insort_key ?f x ([] @ (filter (\<lambda>x. x = g) xs @ filter (\<lambda>x. x \<noteq> g) xs))
        = [] @ x # (filter (\<lambda>x. x = g) xs @ filter (\<lambda>x. x \<noteq> g) xs)"
      by (rule insort_key_front) (use True in auto)
    then show ?thesis using True Cons.IH by simp
  next
    case False
    have "insort_key ?f x (filter (\<lambda>x. x = g) xs @ filter (\<lambda>x. x \<noteq> g) xs)
        = filter (\<lambda>x. x = g) xs @ x # filter (\<lambda>x. x \<noteq> g) xs"
      by (rule insort_key_front) (use False in auto)
    then show ?thesis using False Cons.IH by simp
  qed
qed

lemma order_set: "set (get_provider_order h) = set (providers h)"
  by (auto simp: get_provider_order_def)

lemma order_distinct: "distinct (providers h) \<Longrightarrow> distinct (get_provider_order h)"
  by (auto simp: get_provider_order_def)

lemma lab_init:
  "ChatHandler_init (lab_sdk oc gc) (Some ''sk-1'') ''gpt-3.5-turbo''
      (Some ''gsk-1'') ''llama-3.1-70b-versatile'' pref = Inr (lab_handler oc gc (lower pref))"
  by (simp add: ChatHandler_init_def lab_sdk_def lab_handler_def)

lemma lower_auto: "lower ''auto'' = ''auto''"
  by (simp add: lower_def lower_char_def)

lemma lower_OpenAI: "lower ''OpenAI'' = ''openai''"
  by (simp add: lower_def lower_char_def)

lemma half_init:
  "ChatHandler_init (half_sdk gc) (Some ''sk-1'') ''gpt-3.5-turbo''
      (Some ''gsk-1'') ''llama-3.1-70b-versatile'' ''auto'' = Inr (half_handler gc)"
  by (simp add: ChatHandler_init_def half_sdk_def half_handler_def lower_def lower_char_def)

text \<open>
  Claim C6. The constructor registers \<open>openai\<close> and \<open>groq\<close>, in that order, for
  each of the two whose key is non-empty and whose client constructor returns; a provider
  whose client constructor raises is left out and the constructor carries on. It raises
  (\<open>ValueError\<close>) exactly when no provider was registered; with no key at all it always
  raises.
\<close>

theorem ChatHandler_init_registers:
  "((\<exists>e. ChatHandler_init lib ok om gk gm pref = Inl e) \<longleftrightarrow> usable lib ok gk = [])
 \<and> (\<forall>e. ChatHandler_init lib ok om gk gm pref = Inl e \<longrightarrow> e = ValueError)
 \<and> (\<forall>h. ChatHandler_init lib ok om gk gm pref = Inr h \<longrightarrow>
        providers h = usable lib ok gk
      \<and> (openai_client h \<noteq> None \<longleftrightarrow> initialises (OpenAI lib) ok)
      \<and> (groq_client h \<noteq> None \<longleftrightarrow> initialises (Groq lib) gk))
 \<and> (\<not> truthy ok \<and> \<not> truthy gk \<longrightarrow> ChatHandler_init lib ok om gk gm pref = Inl ValueError)"
proof -
  have "e = ValueError" if "ChatHandler_init lib ok om gk gm pref = Inl e" for e
    using that by (simp add: ChatHandler_init_def Let_def split: if_splits)
  moreover have "ChatHandler_init lib ok om gk gm pref = Inl ValueError"
    if "\<not> truthy ok \<and> \<not> truthy gk"
    using that by (auto simp: ChatHandler_init_def truthy_def Let_def split: option.splits)
  ultimately show ?thesis
    using init_fails_iff[of lib ok om gk gm pref] init_shape(1,3,4)[of lib ok om gk gm pref]
    by blast
qed

theorem ChatHandler_init_registers_witness:
  "ChatHandler_init (half_sdk down_client) (Some ''sk-1'') ''gpt-3.5-turbo''
      (Some ''gsk-1'') ''llama-3.1-70b-versatile'' ''auto'' = Inr (half_handler down_client)
 \<and> usable (half_sdk down_client) (Some ''sk-1'') (Some ''gsk-1'') = [''groq'']
 \<and> providers (half_handler down_client) = [''groq'']
 \<and> ChatHandler_init (half_sdk down_client) None ''gpt-3.5-turbo''
      (Some []) ''llama-3.1-70b-versatile'' ''auto'' = Inl ValueError"
proof -
  note t = ChatHandler_init_registers[of "half_sdk down_client" _ "''gpt-3.5-turbo''" _
      "''llama-3.1-70b-versatile''" "''auto''"]
  have u: "usable (half_sdk down_client) (Some ''sk-1'') (Some ''gsk-1'') = [''groq'']"
    by (simp add: usable_def initialises_def half_sdk_def)
  have "\<not> truthy None \<and> \<not> truthy (Some [])" by (simp add: truthy_def)
  with t[of None "Some []"] have z: "ChatHandler_init (half_sdk down_client) None
      ''gpt-3.5-turbo'' (Some []) ''llama-3.1-70b-versatile'' ''auto'' = Inl ValueError"
    by blast
  from t[of "Some ''sk-1''" "Some ''gsk-1''"] half_init[of down_client]
  have "providers (half_handler down_client)
      = usable (half_sdk down_client) (Some ''sk-1'') (Some ''gsk-1'')"
    by simp
  with u z half_init[of down_client] show ?thesis by simp
qed

subsection \<open>Provider order\<close>

text \<open>
  Claim C3. For a handler built by the constructor: when the (lower-cased) preference
  names a registered provider, \<open>_get_provider_order\<close> puts it first and the other
  registered providers after it in registration order; otherwise (\<open>auto\<close>, or a
  preference that is not registered) every \<open>groq\<close> entry comes before every other
  entry, each group in registration order. With both providers registered,
  \<open>auto\<close> gives \<open>[groq, openai]\<close> and \<open>openai\<close> gives \<open>[openai, groq]\<close>.
\<close>

theorem provider_order_policy:
  assumes "ChatHandler_init lib ok om gk gm pref = Inr h"
  shows "(provider_preference h \<in> set (providers h) \<longrightarrow>
            get_provider_order h
              = provider_preference h # filter (\<lambda>q. q \<noteq> provider_preference h) (providers h))
       \<and> (provider_preference h \<notin> set (providers h) \<longrightarrow>
            get_provider_order h
              = filter (\<lambda>q. q = ''groq'') (providers h) @ filter (\<lambda>q. q \<noteq> ''groq'') (providers h))
       \<and> (providers h = [''openai'', ''groq''] \<and> provider_preference h = ''auto'' \<longrightarrow>
            get_provider_order h = [''groq'', ''openai''])
       \<and> (providers h = [''openai'', ''groq''] \<and> provider_preference h = ''openai'' \<longrightarrow>
            get_provider_order h = [''openai'', ''groq''])"
proof -
  have sub: "set (providers h) \<subseteq> {''openai'', ''groq''}"
    by (rule init_wired(4)[OF assms])
  have 1: "get_provider_order h
      = provider_preference h # filter (\<lambda>q. q \<noteq> provider_preference h) (providers h)"
    if "provider_preference h \<in> set (providers h)"
  proof -
    from that sub have "provider_preference h = ''openai'' \<or> provider_preference h = ''groq''"
      by auto
    then show ?thesis using that by (auto simp: get_provider_order_def)
  qed
  have 2: "get_provider_order h
      = filter (\<lambda>q. q = ''groq'') (providers h) @ filter (\<lambda>q. q \<noteq> ''groq'') (providers h)"
    if "provider_preference h \<notin> set (providers h)"
    using that by (auto simp: get_provider_order_def sort_key_groq_first)
  have 3: "get_provider_order h = [''groq'', ''openai'']"
    if "providers h = [''openai'', ''groq'']" "provider_preference h = ''auto''"
    using that by (simp add: get_provider_order_def)
  have 4: "get_provider_order h = [''openai'', ''groq'']"
    if "providers h = [''openai'', ''groq'']" "provider_preference h = ''openai''"
    using that by (simp add: get_provider_order_def)
  from 1 2 3 4 show ?thesis by blast
qed

theorem provider_order_policy_witness:
  "ChatHandler_init (lab_sdk down_client down_client) (Some ''sk-1'') ''gpt-3.5-turbo''
      (Some ''gsk-1'') ''llama-3.1-70b-versatile'' ''auto''
     = Inr (lab_handler down_client down_client ''auto'')
 \<and> get_provider_order (lab_handler down_client down_client ''auto'') = [''groq'', ''openai'']
 \<and> ChatHandler_init (lab_sdk down_client down_client) (Some ''sk-1'') ''gpt-3.5-turbo''
      (Some ''gsk-1'') ''llama-3.1-70b-versatile'' ''OpenAI''
     = Inr (lab_handler down_client down_client ''openai'')
 \<and> get_provider_order (lab_handler down_client down_client ''openai'') = [''openai'', ''groq'']"
proof -
  let ?a = "lab_handler down_client down_client ''auto''"
  let ?b = "lab_handler down_client down_client ''openai''"
  note i = lab_init[of down_client down_client "''auto''", unfolded lower_auto]
  note j = lab_init[of down_client down_client "''OpenAI''", unfolded lower_OpenAI]
  have "provider_preference ?a \<notin> set (providers ?a)"
    by (simp add: lab_handler_def)
  with provider_order_policy[OF i]
  have "get_provider_order ?a
      = filter (\<lambda>q. q = ''groq'') (providers ?a) @ filter (\<lambda>q. q \<noteq> ''groq'') (providers ?a)"
    by blast
  then have 1: "get_provider_order ?a = [''groq'', ''openai'']"
    by (simp add: lab_handler_def)
  have "provider_preference ?b \<in> set (providers ?b)"
    by (simp add: lab_handler_def)
  with provider_order_policy[OF j]
  have "get_provider_order ?b
      = provider_preference ?b # filter (\<lambda>q. q \<noteq> provider_preference ?b) (providers ?b)"
    by blast
  then have 2: "get_provider_order ?b = [''openai'', ''groq'']"
    by (simp add: lab_handler_def)
  from i j 1 2 show ?thesis by simp
qed

subsection \<open>Sample handlers\<close>

lemma order_lab_auto: "get_provider_order (lab_handler oc gc ''auto'') = [''groq'', ''openai'']"
  by (simp add: get_provider_order_def lab_handler_def)

lemma lab_wired:
  "wired (lab_handler oc gc pref) ''groq''" "wired (lab_handler oc gc pref) ''openai''"
  by (simp_all add: wired_def lab_handler_def)

lemma lab_models:
  "model_of (lab_handler oc gc pref) ''groq'' = ''llama-3.1-70b-versatile''"
  "model_of (lab_handler oc gc pref) ''openai'' = ''gpt-3.5-turbo''"
  by (simp_all add: model_of_def lab_handler_def)

lemma stream_silent_openai:
  "stream_of (lab_handler silent_client gc ''auto'') ms t ''openai'' = ([], None)"
  by (simp add: stream_of_def stream_from_def lab_handler_def silent_client_def)

lemma stream_silent:
  "stream_of (lab_handler oc silent_client ''auto'') ms t ''groq'' = ([], None)"
  by (simp add: stream_of_def stream_from_def lab_handler_def silent_client_def)

lemma stream_flaky_groq:
  "stream_of (lab_handler oc flaky_client ''auto'') ms t ''groq'' = ([''Hel''], Some ''reset'')"
  by (simp add: stream_of_def stream_from_def lab_handler_def flaky_client_def)

lemma stream_flaky_openai:
  "stream_of (lab_handler flaky_client gc ''auto'') ms t ''openai'' = ([''Hel''], Some ''reset'')"
  by (simp add: stream_of_def stream_from_def lab_handler_def flaky_client_def)

lemma stream_down_groq:
  "stream_of (lab_handler oc down_client ''auto'') ms t ''groq'' = ([], Some ''timeout'')"
  by (simp add: stream_of_def stream_from_def lab_handler_def down_client_def)

lemma stream_down_openai:
  "stream_of (lab_handler down_client gc ''auto'') ms t ''openai'' = ([], Some ''timeout'')"
  by (simp add: stream_of_def stream_from_def lab_handler_def down_client_def)

lemma stream_steady_openai:
  "stream_of (lab_handler (steady_client x) gc ''auto'') ms t ''openai'' = ([x], None)"
  by (simp add: stream_of_def stream_from_def lab_handler_def steady_client_def)

lemma attempt_down_groq:
  "attempt (lab_handler oc down_client pref) ms t ''groq'' = Inl ''timeout''"
  by (simp add: attempt_def try_groq_def lab_handler_def down_client_def)

lemma attempt_down_openai:
  "attempt (lab_handler down_client gc pref) ms t ''openai'' = Inl ''timeout''"
  by (simp add: attempt_def try_openai_def lab_handler_def down_client_def)

lemma attempt_steady_openai:
  "attempt (lab_handler (steady_client x) gc pref) ms t ''openai''
     = Inr (Reply (Some x) ''openai'' ''gpt-3.5-turbo'' (3, 1, 4))"
  by (simp add: attempt_def try_openai_def lab_handler_def steady_client_def extract_reply_def)

subsection \<open>Batch requests\<close>

lemma loop_first_success:
  assumes "\<forall>q\<in>set pre. wired h q \<and> fails h ms t q"
    and "wired h p" and "attempt h ms t p = Inr r"
  shows "get_response_loop h ms t (pre @ p # post) errs calls = (calls @ pre @ [p], r)"
  using assms
proof (induction pre arbitrary: errs calls)
  case Nil
  then show ?case
    by (auto simp: wired_def attempt_def)
next
  case (Cons q pre)
  from Cons.prems(1) have q: "wired h q" "fails h ms t q" by simp_all
  from q obtain e where e: "attempt h ms t q = Inl e"
    by (auto simp: fails_def split: sum.splits)
  have "get_response_loop h ms t ((q # pre) @ p # post) errs calls
      = get_response_loop h ms t (pre @ p # post) (errs @ [q @ '': '' @ e]) (calls @ [q])"
    using q(1) e by (auto simp: wired_def attempt_def)
  also have "\<dots> = ((calls @ [q]) @ pre @ [p], r)"
    using Cons.prems by (intro Cons.IH) simp_all
  finally show ?case by simp
qed

lemma loop_all_fail:
  assumes "\<forall>q\<in>set ps. wired h q \<and> fails h ms t q"
  shows "get_response_loop h ms t ps errs calls
       = (calls @ ps, Unavailable (join '' | '' (errs @ map (failure_text h ms t) ps)) apology)"
  using assms
proof (induction ps arbitrary: errs calls)
  case Nil
  then show ?case by simp
next
  case (Cons q ps)
  from Cons.prems have q: "wired h q" "fails h ms t q" by simp_all
  from q obtain e where e: "attempt h ms t q = Inl e"
    by (auto simp: fails_def split: sum.splits)
  have "get_response_loop h ms t (q # ps) errs calls
      = get_response_loop h ms t ps (errs @ [q @ '': '' @ e]) (calls @ [q])"
    using q(1) e by (auto simp: wired_def attempt_def)
  also have "\<dots> = ((calls @ [q]) @ ps,
      Unavailable (join '' | '' ((errs @ [q @ '': '' @ e]) @ map (failure_text h ms t) ps)) apology)"
    using Cons.prems by (intro Cons.IH) simp
  finally have step: "get_response_loop h ms t (q # ps) errs calls = ((calls @ [q]) @ ps,
      Unavailable (join '' | '' ((errs @ [q @ '': '' @ e]) @ map (failure_text h ms t) ps)) apology)" .
  have "failure_text h ms t q = q @ '': '' @ e"
    using e by (simp add: failure_text_def)
  then have "(errs @ [q @ '': '' @ e]) @ map (failure_text h ms t) ps
      = errs @ map (failure_text h ms t) (q # ps)" by simp
  with step show ?case by simp
qed

lemma first_success_split:
  assumes "\<not> (\<forall>q\<in>set ps. fails h ms t q)"
  shows "\<exists>pre p post. ps = pre @ p # post \<and> (\<forall>q\<in>set pre. fails h ms t q) \<and> \<not> fails h ms t p"
  using assms
proof (induction ps)
  case Nil
  then show ?case by simp
next
  case (Cons a ps)
  show ?case
  proof (cases "fails h ms t a")
    case True
    with Cons.prems have "\<not> (\<forall>q\<in>set ps. fails h ms t q)" by simp
    from Cons.IH[OF this] obtain pre p post where
      "ps = pre @ p # post" "\<forall>q\<in>set pre. fails h ms t q" "\<not> fails h ms t p" by blast
    with True have "a # ps = (a # pre) @ p # post \<and> (\<forall>q\<in>set (a # pre). fails h ms t q)
        \<and> \<not> fails h ms t p" by simp
    then show ?thesis by blast
  next
    case False
    then have "a # ps = [] @ a # ps \<and> (\<forall>q\<in>set []. fails h ms t q) \<and> \<not> fails h ms t a"
      by simp
    then show ?thesis by blast
  qed
qed

lemma attempt_reply:
  assumes "attempt h ms t p = Inr r"
  shows "\<exists>m u. r = Reply m (if p = ''groq'' then ''groq'' else ''openai'') (model_of h p) u"
  using assms
  by (auto simp: attempt_def try_groq_def try_openai_def extract_reply_def model_of_def
           split: if_splits option.splits sum.splits list.splits)

text \<open>
  Claim C2. For a handler built by the constructor and any messages and temperature,
  \<open>get_response\<close> walks the resolved order once. The first adapter that succeeds
  ends the walk: its reply (message, provider name, model, usage) is returned and no later
  adapter is called. Each adapter that fails is called once, contributes
  \<open>name: message\<close> to the error list, and the walk goes on. When all fail the result
  is the failure value whose error is the list joined by \<open>" | "\<close> in resolution order,
  with the fixed apology text. The result is always one of these two values; no exception
  reaches the caller.
\<close>

theorem get_response_fallback:
  assumes "ChatHandler_init lib ok om gk gm pref = Inr h"
  shows "(\<forall>pre p post r. get_provider_order h = pre @ p # post
            \<and> (\<forall>q\<in>set pre. fails h ms t q) \<and> attempt h ms t p = Inr r \<longrightarrow>
            get_response h ms t = r
          \<and> fst (get_response_traced h ms t) = pre @ [p]
          \<and> (\<exists>m u. r = Reply m p (model_of h p) u))
       \<and> ((\<forall>q\<in>set (get_provider_order h). fails h ms t q) \<longrightarrow>
            get_response h ms t
              = Unavailable (join '' | '' (map (failure_text h ms t) (get_provider_order h)))
                  apology
          \<and> fst (get_response_traced h ms t) = get_provider_order h)
       \<and> distinct (get_provider_order h)
       \<and> ((\<exists>m p mo u. get_response h ms t = Reply m p mo u)
            \<or> (\<exists>err. get_response h ms t = Unavailable err apology))"
proof -
  let ?order = "get_provider_order h"
  have w: "\<forall>q\<in>set ?order. wired h q"
    using init_wired(1)[OF assms] by (simp add: order_set)
  have names: "set ?order \<subseteq> {''openai'', ''groq''}"
    using init_wired(4)[OF assms] by (simp add: order_set)
  have 1: "get_response h ms t = r \<and> fst (get_response_traced h ms t) = pre @ [p]
      \<and> (\<exists>m u. r = Reply m p (model_of h p) u)"
    if o: "?order = pre @ p # post" and f: "\<forall>q\<in>set pre. fails h ms t q"
      and a: "attempt h ms t p = Inr r" for pre p post r
  proof -
    have "\<forall>q\<in>set pre. wired h q \<and> fails h ms t q" using w f o by simp
    moreover have "wired h p" using w o by simp
    ultimately have "get_response_loop h ms t (pre @ p # post) [] [] = ([] @ pre @ [p], r)"
      using a by (rule loop_first_success)
    then have "get_response_traced h ms t = (pre @ [p], r)"
      by (simp add: get_response_traced_def o)
    moreover have "p = ''groq'' \<or> p = ''openai''" using names o by auto
    then have "\<exists>m u. r = Reply m p (model_of h p) u"
      using attempt_reply[OF a] by auto
    ultimately show ?thesis by (simp add: get_response_def)
  qed
  have 2: "get_response h ms t
        = Unavailable (join '' | '' (map (failure_text h ms t) ?order)) apology
      \<and> fst (get_response_traced h ms t) = ?order"
    if "\<forall>q\<in>set ?order. fails h ms t q"
  proof -
    have "\<forall>q\<in>set ?order. wired h q \<and> fails h ms t q" using w that by simp
    from loop_all_fail[OF this, of "[]" "[]"] show ?thesis
      by (simp add: get_response_def get_response_traced_def)
  qed
  have 3: "distinct ?order"
    by (rule order_distinct[OF init_wired(2)[OF assms]])
  have 4: "(\<exists>m p mo u. get_response h ms t = Reply m p mo u)
      \<or> (\<exists>err. get_response h ms t = Unavailable err apology)"
  proof (cases "\<forall>q\<in>set ?order. fails h ms t q")
    case True
    from 2[OF this] show ?thesis by simp
  next
    case False
    from first_success_split[OF this] obtain pre p post where
      o: "?order = pre @ p # post" and f: "\<forall>q\<in>set pre. fails h ms t q"
      and nf: "\<not> fails h ms t p" by blast
    from nf obtain r where a: "attempt h ms t p = Inr r"
      by (auto simp: fails_def split: sum.splits)
    from 1[OF o f a] show ?thesis by auto
  qed
  from 1 2 3 4 show ?thesis by blast
qed

theorem get_response_fallback_witness:
  "ChatHandler_init (lab_sdk (steady_client ''Hello'') down_client) (Some ''sk-1'')
      ''gpt-3.5-turbo'' (Some ''gsk-1'') ''llama-3.1-70b-versatile'' ''auto''
     = Inr (lab_handler (steady_client ''Hello'') down_client ''auto'')
 \<and> get_response (lab_handler (steady_client ''Hello'') down_client ''auto'') [] 0.7
     = Reply (Some ''Hello'') ''openai'' ''gpt-3.5-turbo'' (3, 1, 4)
 \<and> fst (get_response_traced (lab_handler (steady_client ''Hello'') down_client ''auto'') [] 0.7)
     = [''groq'', ''openai'']
 \<and> get_response (lab_handler down_client down_client ''auto'') [] 0.7
     = Unavailable ''groq: timeout | openai: timeout'' apology
 \<and> fst (get_response_traced (lab_handler down_client down_client ''auto'') [] 0.7)
     = [''groq'', ''openai'']"
proof -
  let ?h = "lab_handler (steady_client ''Hello'') down_client ''auto''"
  let ?d = "lab_handler down_client down_client ''auto''"
  note i = lab_init[of "steady_client ''Hello''" down_client "''auto''", unfolded lower_auto]
  note j = lab_init[of down_client down_client "''auto''", unfolded lower_auto]
  have "get_provider_order ?h = [''groq''] @ ''openai'' # []
      \<and> (\<forall>q\<in>set [''groq'']. fails ?h [] 0.7 q)
      \<and> attempt ?h [] 0.7 ''openai'' = Inr (Reply (Some ''Hello'') ''openai'' ''gpt-3.5-turbo'' (3, 1, 4))"
    by (simp add: order_lab_auto fails_def attempt_down_groq attempt_steady_openai)
  with get_response_fallback[OF i, of "[]" "0.7"]
  have 1: "get_response ?h [] 0.7 = Reply (Some ''Hello'') ''openai'' ''gpt-3.5-turbo'' (3, 1, 4)
      \<and> fst (get_response_traced ?h [] 0.7) = [''groq''] @ [''openai'']"
    by blast
  have "\<forall>q\<in>set (get_provider_order ?d). fails ?d [] 0.7 q"
    by (simp add: order_lab_auto fails_def attempt_down_groq attempt_down_openai)
  with get_response_fallback[OF j, of "[]" "0.7"]
  have "get_response ?d [] 0.7
        = Unavailable (join '' | '' (map (failure_text ?d [] 0.7) (get_provider_order ?d))) apology
      \<and> fst (get_response_traced ?d [] 0.7) = get_provider_order ?d"
    by blast
  then have 2: "get_response ?d [] 0.7 = Unavailable ''groq: timeout | openai: timeout'' apology
      \<and> fst (get_response_traced ?d [] 0.7) = [''groq'', ''openai'']"
    by (simp add: order_lab_auto failure_text_def attempt_down_groq attempt_down_openai join_def)
  from i 1 2 show ?thesis by simp
qed

subsection \<open>Streamed requests\<close>

lemma yielded_append: "yielded (es @ fs) = yielded es @ yielded fs"
  by (induction es rule: yielded.induct) simp_all

lemma yielded_Yields: "yielded (map Yield ys) = ys"
  by (induction ys) simp_all

lemma scratch_append: "scratch (es @ fs) cur = scratch fs (scratch es cur)"
  by (induction es cur rule: scratch.induct) simp_all

lemma scratch_Yields: "scratch (map Yield ys) cur = cur"
  by (induction ys) simp_all

lemma yielded_attempt: "yielded (attempt_events h ms t p) = fragments h ms t p"
  by (simp add: attempt_events_def yielded_append yielded_Yields)

lemma scratch_attempt:
  "scratch (attempt_events h ms t p) cur
     = (if breaks h ms t p then (None, None) else (Some p, Some (model_of h p)))"
  by (simp add: attempt_events_def scratch_append scratch_Yields)

lemma stream_loop_step:
  assumes "wired h p"
  shows "stream_loop h ms t (p # ps)
       = attempt_events h ms t p @ (if breaks h ms t p then stream_loop h ms t ps else [])"
  using assms
  by (auto simp: wired_def attempt_events_def breaks_def fragments_def stream_of_def model_of_def
           split: prod.splits option.splits)

lemma stream_loop_shape:
  assumes "\<forall>q\<in>set ps. wired h q"
  shows "stream_loop h ms t ps
       = concat (map (attempt_events h ms t) (attempted h ms t ps))
         @ (if \<forall>q\<in>set ps. breaks h ms t q then closing_events else [])"
  using assms
proof (induction ps)
  case Nil
  then show ?case by (simp add: closing_events_def)
next
  case (Cons p ps)
  then have "wired h p" by simp
  from stream_loop_step[OF this] Cons show ?case by simp
qed

lemma stream_loop_prefix:
  assumes "\<forall>q\<in>set pre. wired h q \<and> breaks h ms t q"
  shows "stream_loop h ms t (pre @ post)
       = concat (map (attempt_events h ms t) pre) @ stream_loop h ms t post"
  using assms
proof (induction pre)
  case Nil
  then show ?case by simp
next
  case (Cons p pre)
  then have "wired h p" by simp
  from stream_loop_step[OF this, of ms t "pre @ post"] Cons show ?case by simp
qed

lemma yielded_concat_attempts:
  "yielded (concat (map (attempt_events h ms t) ps)) = concat (map (fragments h ms t) ps)"
  by (induction ps) (simp_all add: yielded_append yielded_attempt)

lemma yielded_stream_loop:
  assumes "\<forall>q\<in>set ps. wired h q"
  shows "yielded (stream_loop h ms t ps)
       = concat (map (fragments h ms t) (attempted h ms t ps))
         @ (if \<forall>q\<in>set ps. breaks h ms t q then [unavailable_text] else [])"
  by (simp add: stream_loop_shape[OF assms] yielded_append yielded_concat_attempts
        closing_events_def)

lemma attempted_all_break:
  "\<forall>q\<in>set ps. breaks h ms t q \<Longrightarrow> attempted h ms t ps = ps"
  by (induction ps) simp_all

lemma scratch_stream_loop:
  assumes "\<forall>q\<in>set ps. wired h q"
  shows "scratch (stream_loop h ms t ps) cur
       = (if \<forall>q\<in>set ps. breaks h ms t q then (Some ''error'', Some ''none'')
          else (Some (last (attempted h ms t ps)), Some (model_of h (last (attempted h ms t ps)))))"
  using assms
proof (induction ps arbitrary: cur)
  case Nil
  then show ?case by simp
next
  case (Cons p ps)
  then have "wired h p" by simp
  note step = stream_loop_step[OF this, of ms t ps]
  show ?case
  proof (cases "breaks h ms t p")
    case True
    have ne: "attempted h ms t ps \<noteq> []" if "\<not> (\<forall>q\<in>set ps. breaks h ms t q)"
      using that by (cases ps) auto
    show ?thesis using True step Cons ne by (simp add: scratch_append)
  next
    case False
    then show ?thesis using step by (simp add: scratch_attempt)
  qed
qed

text \<open>
  Claim C7, as the code has it. When every adapter of the resolved order raises (on opening
  its stream or while it is read) and none yields a fragment, the sequence is the single
  fixed error fragment and the scratch state is \<open>(error, none)\<close>. When some adapter's
  stream ends without raising, the sequence is the fragments of the attempted adapters with
  no error fragment added, and the scratch state names that adapter and its model, also
  when it yielded nothing.
\<close>

theorem stream_response_all_fail:
  assumes "ChatHandler_init lib ok om gk gm pref = Inr h"
  shows "((\<forall>q\<in>set (get_provider_order h). breaks h ms t q \<and> fragments h ms t q = []) \<longrightarrow>
            yielded (stream_response h ms t) = [unavailable_text]
          \<and> scratch (stream_response h ms t) (current_provider h, current_model h)
              = (Some ''error'', Some ''none''))
       \<and> (\<not> (\<forall>q\<in>set (get_provider_order h). breaks h ms t q) \<longrightarrow>
            yielded (stream_response h ms t)
              = concat (map (fragments h ms t) (attempted h ms t (get_provider_order h)))
          \<and> scratch (stream_response h ms t) (current_provider h, current_model h)
              = (Some (last (attempted h ms t (get_provider_order h))),
                 Some (model_of h (last (attempted h ms t (get_provider_order h))))))"
proof -
  let ?order = "get_provider_order h"
  have w: "\<forall>q\<in>set ?order. wired h q"
    using init_wired(1)[OF assms] by (simp add: order_set)
  note y = yielded_stream_loop[OF w, of ms t]
  note c = scratch_stream_loop[OF w, of ms t "(current_provider h, current_model h)"]
  have 1: "yielded (stream_response h ms t) = [unavailable_text]
      \<and> scratch (stream_response h ms t) (current_provider h, current_model h)
          = (Some ''error'', Some ''none'')"
    if a: "\<forall>q\<in>set ?order. breaks h ms t q \<and> fragments h ms t q = []"
  proof -
    from a have b: "\<forall>q\<in>set ?order. breaks h ms t q" by simp
    then have "attempted h ms t ?order = ?order" by (rule attempted_all_break)
    moreover have "concat (map (fragments h ms t) ?order) = []" using a by simp
    ultimately show ?thesis using y c b by (simp add: stream_response_def)
  qed
  have 2: "yielded (stream_response h ms t)
        = concat (map (fragments h ms t) (attempted h ms t ?order))
      \<and> scratch (stream_response h ms t) (current_provider h, current_model h)
        = (Some (last (attempted h ms t ?order)),
           Some (model_of h (last (attempted h ms t ?order))))"
    if "\<not> (\<forall>q\<in>set ?order. breaks h ms t q)"
    using y c that by (simp add: stream_response_def)
  from 1 2 show ?thesis by blast
qed

theorem stream_response_all_fail_witness:
  "ChatHandler_init (lab_sdk down_client down_client) (Some ''sk-1'') ''gpt-3.5-turbo''
      (Some ''gsk-1'') ''llama-3.1-70b-versatile'' ''auto''
     = Inr (lab_handler down_client down_client ''auto'')
 \<and> yielded (stream_response (lab_handler down_client down_client ''auto'') [] 0.7)
     = [unavailable_text]
 \<and> scratch (stream_response (lab_handler down_client down_client ''auto'') [] 0.7) (None, None)
     = (Some ''error'', Some ''none'')
 \<and> yielded (stream_response (lab_handler (steady_client ''Hi'') down_client ''auto'') [] 0.7)
     = [''Hi'']
 \<and> scratch (stream_response (lab_handler (steady_client ''Hi'') down_client ''auto'') [] 0.7)
       (None, None)
     = (Some ''openai'', Some ''gpt-3.5-turbo'')"
proof -
  let ?d = "lab_handler down_client down_client ''auto''"
  let ?s = "lab_handler (steady_client ''Hi'') down_client ''auto''"
  note i = lab_init[of down_client down_client "''auto''", unfolded lower_auto]
  note j = lab_init[of "steady_client ''Hi''" down_client "''auto''", unfolded lower_auto]
  have "\<forall>q\<in>set (get_provider_order ?d). breaks ?d [] 0.7 q \<and> fragments ?d [] 0.7 q = []"
    by (simp add: order_lab_auto breaks_def fragments_def stream_down_groq stream_down_openai)
  with stream_response_all_fail[OF i, of "[]" "0.7"]
  have 1: "yielded (stream_response ?d [] 0.7) = [unavailable_text]
      \<and> scratch (stream_response ?d [] 0.7) (None, None) = (Some ''error'', Some ''none'')"
    by (simp add: lab_handler_def)
  have b: "breaks ?s [] 0.7 ''groq''" "\<not> breaks ?s [] 0.7 ''openai''"
    by (simp_all add: breaks_def stream_down_groq stream_steady_openai)
  then have "\<not> (\<forall>q\<in>set (get_provider_order ?s). breaks ?s [] 0.7 q)"
    by (simp add: order_lab_auto)
  with stream_response_all_fail[OF j, of "[]" "0.7"]
  have "yielded (stream_response ?s [] 0.7)
        = concat (map (fragments ?s [] 0.7) (attempted ?s [] 0.7 (get_provider_order ?s)))
      \<and> scratch (stream_response ?s [] 0.7) (current_provider ?s, current_model ?s)
        = (Some (last (attempted ?s [] 0.7 (get_provider_order ?s))),
           Some (model_of ?s (last (attempted ?s [] 0.7 (get_provider_order ?s)))))"
    by blast
  moreover have "attempted ?s [] 0.7 (get_provider_order ?s) = [''groq'', ''openai'']"
    using b by (simp add: order_lab_auto)
  moreover have "model_of ?s ''openai'' = ''gpt-3.5-turbo''"
    by (simp add: model_of_def lab_handler_def)
  moreover have "current_provider ?s = None" "current_model ?s = None"
    by (simp_all add: lab_handler_def)
  ultimately have 2: "yielded (stream_response ?s [] 0.7) = [''Hi'']
      \<and> scratch (stream_response ?s [] 0.7) (None, None)
          = (Some ''openai'', Some ''gpt-3.5-turbo'')"
    by (simp add: fragments_def stream_down_groq stream_steady_openai)
  from i 1 2 show ?thesis by simp
qed

text \<open>
  The claim as the specification states it fails for a stream that ends normally without
  content: no adapter yields a fragment, and the sequence is empty.
\<close>

theorem stream_response_silent:
  "fragments (lab_handler silent_client silent_client ''auto'') [] 0.7 ''groq'' = []
 \<and> fragments (lab_handler silent_client silent_client ''auto'') [] 0.7 ''openai'' = []
 \<and> yielded (stream_response (lab_handler silent_client silent_client ''auto'') [] 0.7) = []
 \<and> scratch (stream_response (lab_handler silent_client silent_client ''auto'') [] 0.7) (None, None)
      = (Some ''groq'', Some ''llama-3.1-70b-versatile'')"
  by (simp add: stream_response_def order_lab_auto stream_loop_step lab_wired lab_models
        attempt_events_def breaks_def fragments_def stream_silent stream_silent_openai
        del: stream_loop.simps(2))

text \<open>
  Claim C8, as the code has it. When an adapter's stream raises after yielding fragments,
  the dispatcher resets the scratch provider and model to \<open>None\<close> and goes on with the
  rest of the order, opening a fresh stream on the next adapter; the fragments yielded
  before stay in the output. The whole yielded sequence is the concatenation of the
  attempted adapters' fragments, followed by the fixed error fragment when every adapter
  of the order has raised.
\<close>

theorem stream_response_fallthrough:
  assumes "ChatHandler_init lib ok om gk gm pref = Inr h"
  shows "(\<forall>pre p post. get_provider_order h = pre @ p # post
            \<and> (\<forall>q\<in>set pre. breaks h ms t q) \<and> breaks h ms t p \<longrightarrow>
            stream_response h ms t
              = concat (map (attempt_events h ms t) pre)
                @ [Assign (Some p) (Some (model_of h p)), Open p]
                @ map Yield (fragments h ms t p) @ [Assign None None]
                @ stream_loop h ms t post
          \<and> (\<forall>q rest. post = q # rest \<longrightarrow>
                take 2 (stream_loop h ms t post) = [Assign (Some q) (Some (model_of h q)), Open q]))
       \<and> yielded (stream_response h ms t)
           = concat (map (fragments h ms t) (attempted h ms t (get_provider_order h)))
             @ (if \<forall>q\<in>set (get_provider_order h). breaks h ms t q
                then [unavailable_text] else [])"
proof -
  let ?order = "get_provider_order h"
  have w: "\<forall>q\<in>set ?order. wired h q"
    using init_wired(1)[OF assms] by (simp add: order_set)
  have 1: "stream_response h ms t
        = concat (map (attempt_events h ms t) pre)
          @ [Assign (Some p) (Some (model_of h p)), Open p]
          @ map Yield (fragments h ms t p) @ [Assign None None]
          @ stream_loop h ms t post
      \<and> (\<forall>q rest. post = q # rest \<longrightarrow>
            take 2 (stream_loop h ms t post) = [Assign (Some q) (Some (model_of h q)), Open q])"
    if o: "?order = pre @ p # post" and b: "\<forall>q\<in>set pre. breaks h ms t q"
      and bp: "breaks h ms t p" for pre p post
  proof -
    have "\<forall>q\<in>set pre. wired h q \<and> breaks h ms t q" using w o b by simp
    then have "stream_loop h ms t (pre @ p # post)
        = concat (map (attempt_events h ms t) pre) @ stream_loop h ms t (p # post)"
      by (rule stream_loop_prefix)
    moreover have "wired h p" using w o by simp
    from stream_loop_step[OF this, of ms t post]
    have "stream_loop h ms t (p # post)
        = attempt_events h ms t p @ stream_loop h ms t post"
      using bp by simp
    ultimately have a: "stream_response h ms t
        = concat (map (attempt_events h ms t) pre)
          @ [Assign (Some p) (Some (model_of h p)), Open p]
          @ map Yield (fragments h ms t p) @ [Assign None None]
          @ stream_loop h ms t post"
      using bp by (simp add: stream_response_def o attempt_events_def)
    have "take 2 (stream_loop h ms t post) = [Assign (Some q) (Some (model_of h q)), Open q]"
      if "post = q # rest" for q rest
    proof -
      have "wired h q" using w o that by simp
      from stream_loop_step[OF this, of ms t rest] that show ?thesis
        by (simp add: attempt_events_def)
    qed
    with a show ?thesis by blast
  qed
  have 2: "yielded (stream_response h ms t)
      = concat (map (fragments h ms t) (attempted h ms t ?order))
        @ (if \<forall>q\<in>set ?order. breaks h ms t q then [unavailable_text] else [])"
    using yielded_stream_loop[OF w, of ms t] by (simp add: stream_response_def)
  from 1 2 show ?thesis by blast
qed

theorem stream_response_fallthrough_witness:
  "ChatHandler_init (lab_sdk (steady_client ''Hello'') flaky_client) (Some ''sk-1'')
      ''gpt-3.5-turbo'' (Some ''gsk-1'') ''llama-3.1-70b-versatile'' ''auto''
     = Inr (lab_handler (steady_client ''Hello'') flaky_client ''auto'')
 \<and> breaks (lab_handler (steady_client ''Hello'') flaky_client ''auto'') [] 0.7 ''groq''
 \<and> stream_response (lab_handler (steady_client ''Hello'') flaky_client ''auto'') [] 0.7
     = [Assign (Some ''groq'') (Some ''llama-3.1-70b-versatile''), Open ''groq'', Yield ''Hel'',
        Assign None None,
        Assign (Some ''openai'') (Some ''gpt-3.5-turbo''), Open ''openai'', Yield ''Hello'']
 \<and> yielded (stream_response (lab_handler (steady_client ''Hello'') flaky_client ''auto'') [] 0.7)
     = [''Hel'', ''Hello'']"
proof -
  let ?h = "lab_handler (steady_client ''Hello'') flaky_client ''auto''"
  note i = lab_init[of "steady_client ''Hello''" flaky_client "''auto''", unfolded lower_auto]
  have b: "breaks ?h [] 0.7 ''groq''"
    by (simp add: breaks_def stream_flaky_groq)
  have "get_provider_order ?h = [] @ ''groq'' # [''openai'']
      \<and> (\<forall>q\<in>set []. breaks ?h [] 0.7 q) \<and> breaks ?h [] 0.7 ''groq''"
    using b by (simp add: order_lab_auto)
  with stream_response_fallthrough[OF i, of "[]" "0.7"]
  have "stream_response ?h [] 0.7
      = concat (map (attempt_events ?h [] 0.7) [])
        @ [Assign (Some ''groq'') (Some (model_of ?h ''groq'')), Open ''groq'']
        @ map Yield (fragments ?h [] 0.7 ''groq'') @ [Assign None None]
        @ stream_loop ?h [] 0.7 [''openai'']"
    by blast
  moreover have "stream_loop ?h [] 0.7 [''openai'']
      = [Assign (Some ''openai'') (Some ''gpt-3.5-turbo''), Open ''openai'', Yield ''Hello'']"
    by (simp add: stream_loop_step lab_wired lab_models attempt_events_def breaks_def
          fragments_def stream_steady_openai del: stream_loop.simps(2))
  moreover have "model_of ?h ''groq'' = ''llama-3.1-70b-versatile''"
    by (simp add: lab_models)
  ultimately have 1: "stream_response ?h [] 0.7
     = [Assign (Some ''groq'') (Some ''llama-3.1-70b-versatile''), Open ''groq'', Yield ''Hel'',
        Assign None None,
        Assign (Some ''openai'') (Some ''gpt-3.5-turbo''), Open ''openai'', Yield ''Hello'']"
    by (simp add: fragments_def stream_flaky_groq)
  then have "yielded (stream_response ?h [] 0.7) = [''Hel'', ''Hello'']" by simp
  with i b 1 show ?thesis by simp
qed

text \<open>
  The claim as the specification states it fails when the last adapter raises too: the
  error fragment follows the partial outputs.
\<close>

theorem stream_response_flaky:
  "attempted (lab_handler flaky_client flaky_client ''auto'') [] 0.7
      (get_provider_order (lab_handler flaky_client flaky_client ''auto'')) = [''groq'', ''openai'']
 \<and> concat (map (fragments (lab_handler flaky_client flaky_client ''auto'') [] 0.7)
      [''groq'', ''openai'']) = [''Hel'', ''Hel'']
 \<and> yielded (stream_response (lab_handler flaky_client flaky_client ''auto'') [] 0.7)
      = [''Hel'', ''Hel'', unavailable_text]"
  by (simp add: stream_response_def order_lab_auto stream_loop_step lab_wired lab_models
        attempt_events_def breaks_def fragments_def stream_flaky_groq stream_flaky_openai
        del: stream_loop.simps(2))

section \<open>Properties of the store among Python objects\<close>

lemma extends_refl: "extends H H"
  by (simp add: extends_def)

lemma extends_trans: "extends H H' \<Longrightarrow> extends H' H'' \<Longrightarrow> extends H H''"
  by (simp add: extends_def)

lemma extends_lookup: "extends H H' \<Longrightarrow> lookup H a = Some ob \<Longrightarrow> lookup H' a = Some ob"
  by (simp add: extends_def lookup_def split: if_splits)

lemma extends_alloc: "extends H (fst (alloc ob H))"
  by (simp add: extends_def alloc_def nth_append)

lemma length_mutate: "length (mutate H r f) = length H"
  by (simp add: mutate_def split: option.splits obj.splits)

lemma nth_mutate_other: "a \<noteq> r \<Longrightarrow> mutate H r f ! a = H ! a"
  by (simp add: mutate_def split: option.splits obj.splits)

lemma extends_mutate_new:
  assumes "length H \<le> r" and "extends H H'"
  shows "extends H (mutate H' r f)"
  using assms by (simp add: extends_def length_mutate nth_mutate_other)

lemma extends_dict_at:
  assumes "extends H H'" and "dict_at H a = Some d"
  shows "dict_at H' a = Some d"
proof -
  from assms(2) have "lookup H a = Some (Dict d)"
    by (simp add: dict_at_def split: option.splits obj.splits)
  from extends_lookup[OF assms(1) this] show ?thesis by (simp add: dict_at_def)
qed

lemma extends_dicts_at:
  "extends H H' \<Longrightarrow> dicts_at H as = Some ds \<Longrightarrow> dicts_at H' as = Some ds"
proof (induction as arbitrary: ds)
  case Nil
  then show ?case by simp
next
  case (Cons a as)
  from Cons.prems(2) obtain d ds' where d: "dict_at H a = Some d"
    and ds': "dicts_at H as = Some ds'" and ds: "ds = d # ds'"
    by (auto split: option.splits)
  from extends_dict_at[OF Cons.prems(1) d] Cons.IH[OF Cons.prems(1) ds'] ds
  show ?case by simp
qed


lemma extends_abstract:
  assumes "extends H H'" and "abstract_store H S = Some s"
  shows "abstract_store H' S = Some s"
proof -
  from assms(2) obtain xs m where dq: "lookup H (ref_messages S) = Some (Deque xs m)"
    by (auto simp: abstract_store_def split: option.splits obj.splits)
  from assms(2) dq obtain ds where ds: "dicts_at H xs = Some ds"
    by (auto simp: abstract_store_def split: option.splits)
  note dq' = extends_lookup[OF assms(1) dq]
  note ds' = extends_dicts_at[OF assms(1) ds]
  show ?thesis
  proof (cases "ref_system_message S")
    case None
    with assms(2) dq ds dq' ds' show ?thesis by (simp add: abstract_store_def)
  next
    case (Some a)
    with assms(2) dq ds obtain d where d: "dict_at H a = Some d"
      by (auto simp: abstract_store_def split: option.splits)
    from extends_dict_at[OF assms(1) d] assms(2) dq ds dq' ds' Some d show ?thesis
      by (simp add: abstract_store_def)
  qed
qed

lemma ref_get_messages_heap:
  assumes "lookup H (ref_messages S) = Some (Deque xs m)"
  shows "ref_get_messages H S
       = (H @ [PyList (directive_ref S @ xs), PyList xs], length H)"
proof -
  from assms have lt: "ref_messages S < length H" and dq: "H ! ref_messages S = Deque xs m"
    by (simp_all add: lookup_def split: if_splits)
  show ?thesis
  proof (cases "ref_system_message S")
    case None
    then show ?thesis using lt dq
      by (simp add: ref_get_messages_def alloc_def mutate_def lookup_def seq_items_def
            directive_ref_def nth_append)
  next
    case (Some a)
    then show ?thesis using lt dq
      by (simp add: ref_get_messages_def alloc_def mutate_def lookup_def seq_items_def
            directive_ref_def nth_append)
  qed
qed

lemma dicts_at_append:
  "dicts_at H as = Some ds \<Longrightarrow> dicts_at H bs = Some es \<Longrightarrow> dicts_at H (as @ bs) = Some (ds @ es)"
  by (induction as arbitrary: ds) (auto split: option.splits)

lemma abstract_snapshot:
  assumes "abstract_store H S = Some s"
  obtains xs m where "lookup H (ref_messages S) = Some (Deque xs m)"
    and "dicts_at H (directive_ref S @ xs) = Some (get_messages s)"
proof -
  from assms obtain xs m where dq: "lookup H (ref_messages S) = Some (Deque xs m)"
    by (auto simp: abstract_store_def split: option.splits obj.splits)
  from assms dq obtain ds where ds: "dicts_at H xs = Some ds"
    by (auto simp: abstract_store_def split: option.splits)
  have "dicts_at H (directive_ref S @ xs) = Some (get_messages s)"
  proof (cases "ref_system_message S")
    case None
    with assms dq ds show ?thesis
      by (auto simp: abstract_store_def directive_ref_def get_messages_def)
  next
    case (Some a)
    with assms dq ds obtain d where d: "dict_at H a = Some d"
      by (auto simp: abstract_store_def split: option.splits)
    with assms dq ds Some show ?thesis
      by (auto simp: abstract_store_def directive_ref_def get_messages_def)
  qed
  with dq that show thesis by blast
qed

lemma snapshot_of_store:
  assumes "abstract_store H S = Some s"
  shows "snapshot_view (ref_get_messages H S) = Some (get_messages s)"
    and "extends H (fst (ref_get_messages H S))"
    and "snd (ref_get_messages H S) = length H"
proof -
  from abstract_snapshot[OF assms] obtain xs m where
    dq: "lookup H (ref_messages S) = Some (Deque xs m)"
    and ds: "dicts_at H (directive_ref S @ xs) = Some (get_messages s)" by blast
  let ?H = "H @ [PyList (directive_ref S @ xs), PyList xs]"
  note eq = ref_get_messages_heap[OF dq]
  have ext: "extends H ?H" by (simp add: extends_def nth_append)
  show "extends H (fst (ref_get_messages H S))" using ext by (simp add: eq)
  show "snd (ref_get_messages H S) = length H" by (simp add: eq)
  have "list_at ?H (length H) = Some (directive_ref S @ xs)"
    by (simp add: list_at_def lookup_def nth_append)
  with extends_dicts_at[OF ext ds]
  show "snapshot_view (ref_get_messages H S) = Some (get_messages s)"
    by (simp add: eq snapshot_view_def)
qed


lemma extends_chat_file_context:
  assumes "length H \<le> r" and "extends H H'"
  shows "extends H (chat_file_context H' r)"
proof -
  have "extends H' (H' @ [Dict file_context])" by (simp add: extends_def nth_append)
  with assms(2) have "extends H (H' @ [Dict file_context])" by (rule extends_trans)
  from extends_mutate_new[OF assms(1) this] show ?thesis
    by (simp add: chat_file_context_def alloc_def)
qed

lemma demo_abstract: "abstract_store demo_heap demo_store = Some demo_value"
  by (simp add: abstract_store_def demo_heap_def demo_store_def demo_value_def lookup_def
        dict_at_def)

lemma demo_get_messages:
  "ref_get_messages demo_heap demo_store
     = (demo_heap @ [PyList [0, 2, 3], PyList [2, 3]], 4)"
proof -
  have "lookup demo_heap (ref_messages demo_store) = Some (Deque [2, 3] 2)"
    by (simp add: lookup_def demo_heap_def demo_store_def)
  from ref_get_messages_heap[OF this] show ?thesis
    by (simp add: directive_ref_def demo_store_def demo_heap_def)
qed

text \<open>
  Claim C10. The list \<^verbatim>\<open>get_messages\<close> returns is a new object: its address was not
  in use before the call, and the call leaves the store as it was. Whatever the caller then
  does to the items of that list, and in particular the append of a new context dict in
  \<^verbatim>\<open>app.py\<close>, the store still stands for the same directive and history, and the next
  \<^verbatim>\<open>get_messages\<close> returns the same contents as before. (The list holds the store's own
  dict references, \<open>directive_ref S @ xs\<close>; the claim is about the list, not about
  writes into those dicts.)
\<close>

theorem get_messages_fresh_list:
  assumes "abstract_store H S = Some s" and "ref_get_messages H S = (H', r)"
  shows "lookup H r = None
       \<and> abstract_store H' S = Some s
       \<and> snapshot_view (H', r) = Some (get_messages s)
       \<and> (\<forall>f. abstract_store (mutate H' r f) S = Some s
              \<and> snapshot_view (ref_get_messages (mutate H' r f) S) = Some (get_messages s))
       \<and> abstract_store (chat_file_context H' r) S = Some s
       \<and> snapshot_view (ref_get_messages (chat_file_context H' r) S) = Some (get_messages s)"
proof -
  note g = snapshot_of_store[OF assms(1), unfolded assms(2), simplified]
  from g(3) have r: "length H \<le> r" by simp
  from g(3) have 1: "lookup H r = None" by (simp add: lookup_def)
  have 2: "abstract_store H' S = Some s"
    by (rule extends_abstract[OF g(2) assms(1)])
  have 4: "abstract_store (mutate H' r f) S = Some s
      \<and> snapshot_view (ref_get_messages (mutate H' r f) S) = Some (get_messages s)" for f
  proof -
    have "abstract_store (mutate H' r f) S = Some s"
      by (rule extends_abstract[OF extends_mutate_new[OF r g(2)] assms(1)])
    with snapshot_of_store(1)[OF this] show ?thesis by simp
  qed
  have 5: "abstract_store (chat_file_context H' r) S = Some s"
    by (rule extends_abstract[OF extends_chat_file_context[OF r g(2)] assms(1)])
  note 6 = snapshot_of_store(1)[OF 5]
  from 1 2 g(1) 4 5 6 show ?thesis by blast
qed

theorem get_messages_fresh_list_witness:
  "abstract_store demo_heap demo_store = Some demo_value
 \<and> ref_get_messages demo_heap demo_store = (demo_heap @ [PyList [0, 2, 3], PyList [2, 3]], 4)
 \<and> abstract_store (chat_file_context (demo_heap @ [PyList [0, 2, 3], PyList [2, 3]]) 4) demo_store
     = Some demo_value
 \<and> snapshot_view (chat_file_context (demo_heap @ [PyList [0, 2, 3], PyList [2, 3]]) 4, 4)
     = Some [says ''system'' ''be kind'', says ''user'' ''hi'', says ''assistant'' ''hello'',
             file_context]
 \<and> snapshot_view
       (ref_get_messages (chat_file_context (demo_heap @ [PyList [0, 2, 3], PyList [2, 3]]) 4)
          demo_store)
     = Some [says ''system'' ''be kind'', says ''user'' ''hi'', says ''assistant'' ''hello'']"
proof -
  note t = get_messages_fresh_list[OF demo_abstract demo_get_messages]
  have g: "get_messages demo_value
      = [says ''system'' ''be kind'', says ''user'' ''hi'', says ''assistant'' ''hello'']"
    by (simp add: get_messages_def demo_value_def)
  have v: "snapshot_view (chat_file_context (demo_heap @ [PyList [0, 2, 3], PyList [2, 3]]) 4, 4)
     = Some [says ''system'' ''be kind'', says ''user'' ''hi'', says ''assistant'' ''hello'',
             file_context]"
    by (simp add: snapshot_view_def chat_file_context_def alloc_def mutate_def lookup_def
          list_at_def dict_at_def demo_heap_def)
  from t g v demo_abstract demo_get_messages show ?thesis by simp
qed

text \<open>
  The heap can tell the difference: the same append through the deque's own address does
  change the store.
\<close>

lemma deque_alias_is_seen:
  "abstract_store (mutate demo_heap (ref_messages demo_store) (\<lambda>xs. xs @ [0])) demo_store
     \<noteq> abstract_store demo_heap demo_store"
  by (simp add: abstract_store_def mutate_def lookup_def dict_at_def demo_heap_def
        demo_store_def says_def)

end
